theory Spec2Isabelle
  imports Main "HOL-Library.Word"
begin

section \<open>Data model\<close>

text \<open>
  The controller of \<^verbatim>\<open>internal/controller/model_controller.go\<close> and the deployment and
  service executors of package \<^verbatim>\<open>model\<close>, embedded over an explicit cluster state.
  A Go result pair \<^verbatim>\<open>(v, err)\<close> is a sum: \<open>Inl err\<close> when the error is non-nil (every
  function here returns the zero value beside an error) and \<open>Inr v\<close> when it is nil.
  Go's \<^verbatim>\<open>int32\<close> is \<open>32 word\<close>, read as signed by \<open>sint\<close>; Go's \<^verbatim>\<open>int\<close> (64 bit) only ever
  holds the value of an \<^verbatim>\<open>int32\<close> or the constant 1 here and is an \<open>int\<close>.
  Output of the logger (\<^verbatim>\<open>log.Info\<close>) is not part of the state.
\<close>

type_synonym int32 = "32 word"

text \<open>The status reasons of an API error that the code distinguishes (\<^verbatim>\<open>errors.IsNotFound\<close>).\<close>

datatype StatusError = NotFound | AlreadyExists | Conflict | OtherError string

text \<open>\<^verbatim>\<open>client.ObjectKey{Namespace, Name}\<close>.\<close>

type_synonym ObjectKey = "string \<times> string"

record OwnerReference =
  or_APIVersion :: string
  or_Kind :: string
  or_Name :: string
  or_UID :: string
  or_BlockOwnerDeletion :: "bool option"

record ObjectMeta =
  Name :: string
  Namespace :: string
  UID :: string
  Labels :: "(string \<times> string) list"
  Annotations :: "(string \<times> string) list"
  OwnerReferences :: "OwnerReference list"

datatype ConditionStatus = ConditionTrue | ConditionFalse | ConditionUnknown

text \<open>
  \<^verbatim>\<open>ModelStatusConditionType\<close> is a string type of package \<^verbatim>\<open>api/v1\<close>.
\<close>

type_synonym ModelStatusConditionType = string

definition ModelAvailable :: ModelStatusConditionType where
  \<comment> \<open>Modelled from the spec: the constant is declared in \<^verbatim>\<open>api/v1\<close>, which is not among the
      sources; the spec names the condition Available.\<close>
  "ModelAvailable = ''Available''"

definition ModelProgressing :: ModelStatusConditionType where
  \<comment> \<open>Modelled from the spec: the constant is declared in \<^verbatim>\<open>api/v1\<close>, which is not among the
      sources; the spec names the condition Progressing.\<close>
  "ModelProgressing = ''Progressing''"

record ModelStatusCondition =
  Type :: ModelStatusConditionType
  Status :: ConditionStatus
  LastUpdateTime :: int
  LastTransitionTime :: int

text \<open>The storage parameters of a Model are only handed on to the image store.\<close>

typedecl ModelPersistentVolumeClaim
typedecl ModelPersistentVolume

record ModelSpec =
  Image :: string
  Replicas :: "int32 option"
  StorageClassName :: "string option"
  PersistentVolumeClaim :: "ModelPersistentVolumeClaim option"
  PersistentVolume :: "ModelPersistentVolume option"

record ModelStatus =
  Conditions :: "ModelStatusCondition list"
  st_Replicas :: int32
  st_ReadyReplicas :: int32
  st_AvailableReplicas :: int32
  st_UnavailableReplicas :: int32

record Model =
  m_APIVersion :: string
  m_Kind :: string
  m_Meta :: ObjectMeta
  m_Spec :: ModelSpec
  m_Status :: ModelStatus

text \<open>
  The containers of the pod template are built by \<^verbatim>\<open>NewOllamaPullerContainer\<close> and
  \<^verbatim>\<open>NewOllamaServerContainer\<close>, which are not among the sources: a container is the builder
  call that makes it.
\<close>

datatype Container = NewOllamaPullerContainer string string | NewOllamaServerContainer bool

record Volume =
  v_Name :: string
  v_ClaimName :: string
  v_ReadOnly :: bool

record PodTemplateSpec =
  t_Labels :: "(string \<times> string) list"
  t_InitContainers :: "Container list"
  t_Containers :: "Container list"
  t_Volumes :: "Volume list"

record DeploymentSpec =
  ds_Replicas :: "int32 option"
  ds_MatchLabels :: "(string \<times> string) list"
  ds_Template :: PodTemplateSpec

record DeploymentStatus =
  dst_Replicas :: int32
  dst_ReadyReplicas :: int32
  dst_AvailableReplicas :: int32
  dst_UnavailableReplicas :: int32

record Deployment =
  d_Meta :: ObjectMeta
  d_Spec :: DeploymentSpec
  d_Status :: DeploymentStatus

datatype ServiceType = ServiceTypeClusterIP | ServiceTypeNodePort | ServiceTypeLoadBalancer

record ServicePort =
  sp_Name :: string
  sp_Port :: int32
  sp_TargetPort :: int

record ServiceSpec =
  ss_Type :: ServiceType
  ss_Selector :: "(string \<times> string) list"
  ss_Ports :: "ServicePort list"
  ss_ClusterIP :: string

record Service =
  s_Meta :: ObjectMeta
  s_Spec :: ServiceSpec

text \<open>The stateful set of the image store is only handed from one image store call to the next.\<close>

datatype StatefulSet = StatefulSet ObjectMeta

section \<open>The cluster: resource store and event sink\<close>

datatype Verb = VGet | VCreate | VUpdate | VStatusUpdate

datatype Kind = KModel | KDeployment | KService

type_synonym Call = "Verb \<times> Kind \<times> ObjectKey"

datatype EventArg = ArgString string | ArgInt int

record Event =
  ev_Object :: ObjectKey
  ev_Type :: string
  ev_Reason :: string
  ev_Format :: string
  ev_Args :: "EventArg list"

text \<open>
  The cluster as the reconciler sees it through \<^verbatim>\<open>client.Client\<close> and the event recorder:
  the stored objects by kind and key, the events recorded so far, the log of the client calls
  made so far, and the clock read by \<^verbatim>\<open>metav1.Now()\<close>. \<open>faults\<close> says which client calls fail
  for a reason of the store's own (an I/O error, a write conflict): the call number \<open>i\<close>
  (counting from 0, in the order of \<open>calls\<close>) fails with \<open>e\<close> when \<open>faults s i = Some e\<close>.
\<close>

record Cluster =
  models :: "ObjectKey \<rightharpoonup> Model"
  deployments :: "ObjectKey \<rightharpoonup> Deployment"
  services :: "ObjectKey \<rightharpoonup> Service"
  events :: "Event list"
  calls :: "Call list"
  faults :: "nat \<Rightarrow> StatusError option"
  clock :: int

definition client_call :: "Call \<Rightarrow> Cluster \<Rightarrow> StatusError option \<times> Cluster" where
  "client_call c s = (faults s (length (calls s)), s\<lparr>calls := calls s @ [c]\<rparr>)"

definition meta_key :: "ObjectMeta \<Rightarrow> ObjectKey" where
  "meta_key om = (Namespace om, Name om)"

text \<open>\<^verbatim>\<open>c.Get(ctx, key, &obj)\<close>: the stored object, or NotFound.\<close>

definition Get_Model :: "ObjectKey \<Rightarrow> Cluster \<Rightarrow> (StatusError + Model) \<times> Cluster" where
  "Get_Model k s =
     (case client_call (VGet, KModel, k) s of
        (Some e, s') \<Rightarrow> (Inl e, s')
      | (None, s') \<Rightarrow>
          (case models s k of None \<Rightarrow> (Inl NotFound, s') | Some m \<Rightarrow> (Inr m, s')))"

definition Get_Deployment :: "ObjectKey \<Rightarrow> Cluster \<Rightarrow> (StatusError + Deployment) \<times> Cluster" where
  "Get_Deployment k s =
     (case client_call (VGet, KDeployment, k) s of
        (Some e, s') \<Rightarrow> (Inl e, s')
      | (None, s') \<Rightarrow>
          (case deployments s k of None \<Rightarrow> (Inl NotFound, s') | Some d \<Rightarrow> (Inr d, s')))"

definition Get_Service :: "ObjectKey \<Rightarrow> Cluster \<Rightarrow> (StatusError + Service) \<times> Cluster" where
  "Get_Service k s =
     (case client_call (VGet, KService, k) s of
        (Some e, s') \<Rightarrow> (Inl e, s')
      | (None, s') \<Rightarrow>
          (case services s k of None \<Rightarrow> (Inl NotFound, s') | Some v \<Rightarrow> (Inr v, s')))"

text \<open>
  \<^verbatim>\<open>c.Create(ctx, obj)\<close>: stores the object under its own key, AlreadyExists when taken.
  The object is kept as it is handed in; what the cluster would fill in on creation (a UID,
  a resource version) is not modelled.
\<close>

definition Create_Deployment :: "Deployment \<Rightarrow> Cluster \<Rightarrow> StatusError option \<times> Cluster" where
  "Create_Deployment d s =
     (case client_call (VCreate, KDeployment, meta_key (d_Meta d)) s of
        (Some e, s') \<Rightarrow> (Some e, s')
      | (None, s') \<Rightarrow>
          (case deployments s (meta_key (d_Meta d)) of
             Some _ \<Rightarrow> (Some AlreadyExists, s')
           | None \<Rightarrow> (None, s'\<lparr>deployments := (deployments s')(meta_key (d_Meta d) \<mapsto> d)\<rparr>)))"

definition Create_Service :: "Service \<Rightarrow> Cluster \<Rightarrow> StatusError option \<times> Cluster" where
  "Create_Service v s =
     (case client_call (VCreate, KService, meta_key (s_Meta v)) s of
        (Some e, s') \<Rightarrow> (Some e, s')
      | (None, s') \<Rightarrow>
          (case services s (meta_key (s_Meta v)) of
             Some _ \<Rightarrow> (Some AlreadyExists, s')
           | None \<Rightarrow> (None, s'\<lparr>services := (services s')(meta_key (s_Meta v) \<mapsto> v)\<rparr>)))"

text \<open>\<^verbatim>\<open>c.Update(ctx, obj)\<close>: replaces the stored object, NotFound when there is none.\<close>

definition Update_Deployment :: "Deployment \<Rightarrow> Cluster \<Rightarrow> StatusError option \<times> Cluster" where
  "Update_Deployment d s =
     (case client_call (VUpdate, KDeployment, meta_key (d_Meta d)) s of
        (Some e, s') \<Rightarrow> (Some e, s')
      | (None, s') \<Rightarrow>
          (case deployments s (meta_key (d_Meta d)) of
             None \<Rightarrow> (Some NotFound, s')
           | Some _ \<Rightarrow> (None, s'\<lparr>deployments := (deployments s')(meta_key (d_Meta d) \<mapsto> d)\<rparr>)))"

text \<open>
  \<^verbatim>\<open>r.Status().Update(ctx, &m)\<close>: replaces the status of the stored Model and nothing else of
  it, NotFound when the Model is not stored.
\<close>

definition Status_Update :: "Model \<Rightarrow> Cluster \<Rightarrow> StatusError option \<times> Cluster" where
  "Status_Update m s =
     (case client_call (VStatusUpdate, KModel, meta_key (m_Meta m)) s of
        (Some e, s') \<Rightarrow> (Some e, s')
      | (None, s') \<Rightarrow>
          (case models s (meta_key (m_Meta m)) of
             None \<Rightarrow> (Some NotFound, s')
           | Some stored \<Rightarrow>
               (None, s'\<lparr>models := (models s')(meta_key (m_Meta m) \<mapsto>
                                       stored\<lparr>m_Status := m_Status m\<rparr>)\<rparr>)))"

text \<open>
  The recorder wrapped around a Model (\<^verbatim>\<open>model.NewWrappedRecorder(r.Recorder, &m)\<close>) records
  events on that Model; \<^verbatim>\<open>Eventf\<close> never fails.
\<close>

type_synonym WrappedRecorder = ObjectKey

definition NewWrappedRecorder :: "Model \<Rightarrow> WrappedRecorder" where
  "NewWrappedRecorder m = meta_key (m_Meta m)"

definition Eventf :: "WrappedRecorder \<Rightarrow> string \<Rightarrow> string \<Rightarrow> string \<Rightarrow> EventArg list \<Rightarrow> Cluster \<Rightarrow> Cluster" where
  "Eventf modelRecorder eventtype reason messageFmt args s =
     s\<lparr>events := events s @
         [\<lparr>ev_Object = modelRecorder, ev_Type = eventtype, ev_Reason = reason,
           ev_Format = messageFmt, ev_Args = args\<rparr>]\<rparr>"

section \<open>Status tracker (controller)\<close>

text \<open>\<^verbatim>\<open>lo.Filter\<close> keeps the items that satisfy the predicate, in order.\<close>

definition IsProgressing :: "Model \<Rightarrow> bool" where
  "IsProgressing ollamaModelResource =
     (length (filter (\<lambda>item. Type item = ModelProgressing)
                (Conditions (m_Status ollamaModelResource))) > 0)"

definition SetProgressing :: "Model \<Rightarrow> Cluster \<Rightarrow> (StatusError + bool) \<times> Cluster" where
  "SetProgressing ollamaModelResource s =
     (let hasProgressing =
            (length (filter (\<lambda>item. Type item = ModelProgressing)
                       (Conditions (m_Status ollamaModelResource))) > 0)
      in if hasProgressing then (Inr False, s)
         else
           (let updated = ollamaModelResource
                  \<lparr>m_Status := (m_Status ollamaModelResource)
                     \<lparr>Conditions :=
                        [\<lparr>Type = ModelProgressing, Status = ConditionTrue,
                          LastUpdateTime = clock s, LastTransitionTime = clock s\<rparr>]\<rparr>\<rparr>
            in case Status_Update updated s of
                 (Some e, s') \<Rightarrow> (Inl e, s')
               | (None, s') \<Rightarrow> (Inr True, s')))"

definition IsAvailable :: "Model \<Rightarrow> bool" where
  "IsAvailable ollamaModelResource =
     (length (filter (\<lambda>item. Type item = ModelAvailable)
                (Conditions (m_Status ollamaModelResource))) > 0)"

definition SetAvailable :: "Model \<Rightarrow> Cluster \<Rightarrow> (StatusError + bool) \<times> Cluster" where
  "SetAvailable ollamaModelResource s =
     (let hasAvailable =
            (length (filter (\<lambda>item. Type item = ModelAvailable)
                       (Conditions (m_Status ollamaModelResource))) > 0)
      in if hasAvailable then (Inr False, s)
         else
           (let updated = ollamaModelResource
                  \<lparr>m_Status := (m_Status ollamaModelResource)
                     \<lparr>Conditions :=
                        [\<lparr>Type = ModelAvailable, Status = ConditionTrue,
                          LastUpdateTime = clock s, LastTransitionTime = clock s\<rparr>]\<rparr>\<rparr>
            in case Status_Update updated s of
                 (Some e, s') \<Rightarrow> (Inl e, s')
               | (None, s') \<Rightarrow> (Inr True, s')))"

definition ShouldSetReplicas :: "Model \<Rightarrow> int32 \<Rightarrow> int32 \<Rightarrow> int32 \<Rightarrow> int32 \<Rightarrow> bool" where
  "ShouldSetReplicas ollamaModelResource replicas readyReplicas availableReplicas unavailableReplicas =
     (st_Replicas (m_Status ollamaModelResource) \<noteq> replicas \<or>
      st_ReadyReplicas (m_Status ollamaModelResource) \<noteq> readyReplicas \<or>
      st_AvailableReplicas (m_Status ollamaModelResource) \<noteq> availableReplicas \<or>
      st_UnavailableReplicas (m_Status ollamaModelResource) \<noteq> unavailableReplicas)"

definition SetReplicas :: "Model \<Rightarrow> int32 \<Rightarrow> int32 \<Rightarrow> int32 \<Rightarrow> int32 \<Rightarrow> Cluster \<Rightarrow> (StatusError + bool) \<times> Cluster" where
  "SetReplicas ollamaModelResource replicas readyReplicas availableReplicas unavailableReplicas s =
     (let updated = ollamaModelResource
            \<lparr>m_Status := (m_Status ollamaModelResource)
               \<lparr>st_Replicas := replicas, st_ReadyReplicas := readyReplicas,
                st_AvailableReplicas := availableReplicas,
                st_UnavailableReplicas := unavailableReplicas\<rparr>\<rparr>
      in case Status_Update updated s of
           (Some e, s') \<Rightarrow> (Inl e, s')
         | (None, s') \<Rightarrow> (Inr True, s'))"

section \<open>Stage executors of package model: deployment and service\<close>

definition ModelAppName :: "string \<Rightarrow> string" where
  "ModelAppName name = ''ollama-model-'' @ name"

text \<open>\<^verbatim>\<open>getDeployment\<close>: \<open>Inr None\<close> is Go's \<^verbatim>\<open>(nil, nil)\<close>.\<close>

definition getDeployment :: "string \<Rightarrow> string \<Rightarrow> Cluster \<Rightarrow> (StatusError + Deployment option) \<times> Cluster" where
  "getDeployment namespace name s =
     (case Get_Deployment (namespace, ModelAppName name) s of
        (Inl e, s') \<Rightarrow> if e = NotFound then (Inr None, s') else (Inl e, s')
      | (Inr deployment, s') \<Rightarrow> (Inr (Some deployment), s'))"

text \<open>
  What the deployment and service executors use of the image store part of package
  \<^verbatim>\<open>model\<close>, which is not among the sources, and what \<^verbatim>\<open>Reconcile\<close> calls of it: the
  constant \<^verbatim>\<open>imageStorePVCName\<close> and the five image store functions. The functions are
  parameters: each gives what the call returns for its arguments in the pass at hand. What
  they store and record in the cluster is outside this model.
\<close>

record ImageStore =
  imageStorePVCName :: string
  EnsureImageStorePVCCreated ::
    "string \<Rightarrow> string option \<Rightarrow> ModelPersistentVolumeClaim option \<Rightarrow>
     ModelPersistentVolume option \<Rightarrow> StatusError option"
  EnsureImageStoreStatefulSetCreated :: "string \<Rightarrow> StatusError + StatefulSet"
  IsImageStoreStatefulSetReady :: "string \<Rightarrow> StatusError + bool"
  EnsureImageStoreServiceCreated :: "string \<Rightarrow> StatefulSet \<Rightarrow> StatusError option"
  IsImageStoreServiceReady :: "string \<Rightarrow> StatusError + bool"

definition newDeployment :: "ImageStore \<Rightarrow> string \<Rightarrow> string \<Rightarrow> string \<Rightarrow> int32 option \<Rightarrow> Model \<Rightarrow> Deployment" where
  \<comment> \<open>the composite literal of \<^verbatim>\<open>EnsureDeploymentCreated\<close>\<close>
  "newDeployment ims namespace name image' replicas model =
     \<lparr>d_Meta =
        \<lparr>Name = ModelAppName name, Namespace = namespace, UID = [],
         Labels = [], Annotations = [],
         OwnerReferences =
           [\<lparr>or_APIVersion = m_APIVersion model, or_Kind = m_Kind model,
             or_Name = Name (m_Meta model), or_UID = UID (m_Meta model),
             or_BlockOwnerDeletion = Some True\<rparr>]\<rparr>,
      d_Spec =
        \<lparr>ds_Replicas = (if replicas = None then Some 1 else replicas),
         ds_MatchLabels = [(''app'', ModelAppName name)],
         ds_Template =
           \<lparr>t_Labels = [(''app'', ModelAppName name)],
            t_InitContainers = [NewOllamaPullerContainer image' namespace],
            t_Containers = [NewOllamaServerContainer True],
            t_Volumes =
              [\<lparr>v_Name = ''image-storage'', v_ClaimName = imageStorePVCName ims,
                v_ReadOnly = True\<rparr>]\<rparr>\<rparr>,
      d_Status =
        \<lparr>dst_Replicas = 0, dst_ReadyReplicas = 0, dst_AvailableReplicas = 0,
         dst_UnavailableReplicas = 0\<rparr>\<rparr>"

definition EnsureDeploymentCreated ::
  "ImageStore \<Rightarrow> string \<Rightarrow> string \<Rightarrow> string \<Rightarrow> int32 option \<Rightarrow> Model \<Rightarrow> WrappedRecorder \<Rightarrow>
   Cluster \<Rightarrow> (StatusError + Deployment) \<times> Cluster" where
  "EnsureDeploymentCreated ims namespace name image' replicas model modelRecorder s =
     (case getDeployment namespace name s of
        (Inl e, s1) \<Rightarrow> (Inl e, s1)
      | (Inr (Some deployment), s1) \<Rightarrow> (Inr deployment, s1)
      | (Inr None, s1) \<Rightarrow>
          (let deployment = newDeployment ims namespace name image' replicas model
           in case Create_Deployment deployment s1 of
                (Some e, s2) \<Rightarrow> (Inl e, s2)
              | (None, s2) \<Rightarrow>
                  (Inr deployment,
                   Eventf modelRecorder ''Normal'' ''DeploymentCreated'' ''Deployment %s created''
                     [ArgString (Name (d_Meta deployment))] s2)))"

definition IsDeploymentReady :: "string \<Rightarrow> string \<Rightarrow> WrappedRecorder \<Rightarrow> Cluster \<Rightarrow> (StatusError + bool) \<times> Cluster" where
  "IsDeploymentReady namespace name modelRecorder s =
     (case getDeployment namespace name s of
        (Inl e, s1) \<Rightarrow> (Inl e, s1)
      | (Inr None, s1) \<Rightarrow> (Inr False, s1)
      | (Inr (Some deployment), s1) \<Rightarrow>
          (let replica = (case ds_Replicas (d_Spec deployment) of
                            None \<Rightarrow> (1::int) | Some r \<Rightarrow> sint r)
           in if dst_ReadyReplicas (d_Status deployment) = (word_of_int replica :: int32)
              then (Inr True, s1)
              else (Inr False,
                    Eventf modelRecorder ''Normal'' ''WaitingForDeployment''
                      ''Waiting for deployment %s to become ready''
                      [ArgString (Name (d_Meta deployment))] s1)))"

definition UpdateDeployment :: "Model \<Rightarrow> WrappedRecorder \<Rightarrow> Cluster \<Rightarrow> (StatusError + bool) \<times> Cluster" where
  "UpdateDeployment model modelRecorder s =
     (case getDeployment (Namespace (m_Meta model)) (Name (m_Meta model)) s of
        (Inl e, s1) \<Rightarrow> (Inl e, s1)
      | (Inr None, s1) \<Rightarrow> (Inr False, s1)
      | (Inr (Some deployment), s1) \<Rightarrow>
          (let replicas = (case Replicas (m_Spec model) of
                             None \<Rightarrow> (1::int) | Some r \<Rightarrow> sint r)
           in if (case ds_Replicas (d_Spec deployment) of
                    None \<Rightarrow> False | Some dr \<Rightarrow> sint dr = replicas)
              then (Inr False, s1)
              else
                (let updated = deployment
                       \<lparr>d_Spec := (d_Spec deployment)
                          \<lparr>ds_Replicas := Some (word_of_int replicas)\<rparr>\<rparr>
                 in case Update_Deployment updated s1 of
                      (Some e, s2) \<Rightarrow> (Inl e, s2)
                    | (None, s2) \<Rightarrow>
                        (Inr True,
                         Eventf modelRecorder ''Normal'' ''ModelScaled''
                           ''Model scaled from %d to %d''
                           [ArgInt (sint (dst_Replicas (d_Status updated))), ArgInt replicas]
                           s2))))"

definition getService :: "string \<Rightarrow> string \<Rightarrow> Cluster \<Rightarrow> (StatusError + Service option) \<times> Cluster" where
  "getService namespace name s =
     (case Get_Service (namespace, ModelAppName name) s of
        (Inl e, s') \<Rightarrow> if e = NotFound then (Inr None, s') else (Inl e, s')
      | (Inr service, s') \<Rightarrow> (Inr (Some service), s'))"

definition newService :: "string \<Rightarrow> string \<Rightarrow> Deployment \<Rightarrow> Service" where
  \<comment> \<open>the composite literal of \<^verbatim>\<open>EnsureServiceCreated\<close>\<close>
  "newService namespace name deployment =
     \<lparr>s_Meta =
        \<lparr>Name = ModelAppName name, Namespace = namespace, UID = [],
         Labels = [], Annotations = [],
         OwnerReferences =
           [\<lparr>or_APIVersion = ''apps/v1'', or_Kind = ''Deployment'',
             or_Name = Name (d_Meta deployment), or_UID = UID (d_Meta deployment),
             or_BlockOwnerDeletion = Some True\<rparr>]\<rparr>,
      s_Spec =
        \<lparr>ss_Type = ServiceTypeClusterIP,
         ss_Selector = [(''app'', ModelAppName name)],
         ss_Ports = [\<lparr>sp_Name = ''ollama'', sp_Port = 11434, sp_TargetPort = 11434\<rparr>],
         ss_ClusterIP = []\<rparr>\<rparr>"

definition EnsureServiceCreated ::
  "string \<Rightarrow> string \<Rightarrow> Deployment \<Rightarrow> WrappedRecorder \<Rightarrow> Cluster \<Rightarrow> (StatusError + Service) \<times> Cluster" where
  "EnsureServiceCreated namespace name deployment modelRecorder s =
     (case getService namespace name s of
        (Inl e, s1) \<Rightarrow> (Inl e, s1)
      | (Inr (Some service), s1) \<Rightarrow> (Inr service, s1)
      | (Inr None, s1) \<Rightarrow>
          (let service = newService namespace name deployment
           in case Create_Service service s1 of
                (Some e, s2) \<Rightarrow> (Inl e, s2)
              | (None, s2) \<Rightarrow>
                  (Inr service,
                   Eventf modelRecorder ''Normal'' ''ServiceCreated'' ''Service %s created''
                     [ArgString (Name (s_Meta service))] s2)))"

definition IsServiceReady :: "string \<Rightarrow> string \<Rightarrow> WrappedRecorder \<Rightarrow> Cluster \<Rightarrow> (StatusError + bool) \<times> Cluster" where
  "IsServiceReady namespace name modelRecorder s =
     (case getService namespace name s of
        (Inl e, s1) \<Rightarrow> (Inl e, s1)
      | (Inr None, s1) \<Rightarrow> (Inr False, s1)
      | (Inr (Some service), s1) \<Rightarrow>
          if ss_ClusterIP (s_Spec service) = []
          then (Inr False,
                Eventf modelRecorder ''Normal'' ''WaitingForService''
                  ''Waiting for service %s to have cluster IP''
                  [ArgString (Name (s_Meta service))] s1)
          else (Inr True, s1))"

section \<open>The reconcile pass (controller)\<close>

record Request =
  req_Namespace :: string
  req_Name :: string

record Result =
  Requeue :: bool
  RequeueAfter :: int

text \<open>\<^verbatim>\<open>time.Duration\<close> counts nanoseconds.\<close>

definition time_Second :: int where
  "time_Second = 1000000000"

definition IgnoreNotFound :: "StatusError \<Rightarrow> StatusError option" where
  "IgnoreNotFound e = (if e = NotFound then None else Some e)"

text \<open>
  \<^verbatim>\<open>Reconcile\<close> is one function in the source. It is embedded as a chain of definitions,
  each a consecutive part of its body that ends by returning or by going on with the next
  part: lines 151 to 159 (the replica counters), 151 to 168, 138 to 168, 117 to 168, 82 to 168,
  69 to 168, and the whole function from line 61.
\<close>

definition Reconcile_counters :: "Model \<Rightarrow> Deployment \<Rightarrow> Cluster \<Rightarrow> (StatusError + bool) \<times> Cluster" where
  \<comment> \<open>lines 151 to 159: \<open>Inr True\<close> when \<^verbatim>\<open>hasSet\<close> is true, where the pass requeues\<close>
  "Reconcile_counters m deployment s =
     (if ShouldSetReplicas m (dst_Replicas (d_Status deployment))
           (dst_ReadyReplicas (d_Status deployment))
           (dst_AvailableReplicas (d_Status deployment))
           (dst_UnavailableReplicas (d_Status deployment))
      then SetReplicas m (dst_Replicas (d_Status deployment))
             (dst_ReadyReplicas (d_Status deployment))
             (dst_AvailableReplicas (d_Status deployment))
             (dst_UnavailableReplicas (d_Status deployment)) s
      else (Inr False, s))"

definition Reconcile_status :: "Model \<Rightarrow> WrappedRecorder \<Rightarrow> Deployment \<Rightarrow> Cluster \<Rightarrow> (StatusError + Result) \<times> Cluster" where
  \<comment> \<open>lines 151 to 168\<close>
  "Reconcile_status m modelRecorder deployment s =
     (case Reconcile_counters m deployment s of
        (Inl e, s1) \<Rightarrow> (Inl e, s1)
      | (Inr True, s1) \<Rightarrow> (Inr \<lparr>Requeue = True, RequeueAfter = time_Second * 5\<rparr>, s1)
      | (Inr False, s1) \<Rightarrow>
          (case SetAvailable m s1 of
             (Inl e, s2) \<Rightarrow> (Inl e, s2)
           | (Inr _, s2) \<Rightarrow>
               (Inr \<lparr>Requeue = False, RequeueAfter = 0\<rparr>,
                Eventf modelRecorder ''Normal'' ''ModelAvailable'' ''Model is available'' [] s2)))"

definition Reconcile_endpoint :: "Request \<Rightarrow> Model \<Rightarrow> WrappedRecorder \<Rightarrow> Deployment \<Rightarrow> Cluster \<Rightarrow> (StatusError + Result) \<times> Cluster" where
  \<comment> \<open>lines 138 to 168\<close>
  "Reconcile_endpoint req m modelRecorder deployment s =
     (case EnsureServiceCreated (req_Namespace req) (req_Name req) deployment modelRecorder s of
        (Inl e, s1) \<Rightarrow> (Inl e, s1)
      | (Inr _, s1) \<Rightarrow>
          (case IsServiceReady (req_Namespace req) (req_Name req) modelRecorder s1 of
             (Inl e, s2) \<Rightarrow> (Inl e, s2)
           | (Inr False, s2) \<Rightarrow> (Inr \<lparr>Requeue = True, RequeueAfter = time_Second * 5\<rparr>, s2)
           | (Inr True, s2) \<Rightarrow> Reconcile_status m modelRecorder deployment s2))"

definition Reconcile_workload :: "ImageStore \<Rightarrow> Request \<Rightarrow> Model \<Rightarrow> WrappedRecorder \<Rightarrow> Cluster \<Rightarrow> (StatusError + Result) \<times> Cluster" where
  \<comment> \<open>lines 117 to 168\<close>
  "Reconcile_workload ims req m modelRecorder s =
     (case EnsureDeploymentCreated ims (req_Namespace req) (req_Name req) (Image (m_Spec m))
             (Replicas (m_Spec m)) m modelRecorder s of
        (Inl e, s1) \<Rightarrow> (Inl e, s1)
      | (Inr deployment, s1) \<Rightarrow>
          (case UpdateDeployment m modelRecorder s1 of
             (Inl e, s2) \<Rightarrow> (Inl e, s2)
           | (Inr True, s2) \<Rightarrow> (Inr \<lparr>Requeue = True, RequeueAfter = time_Second * 5\<rparr>, s2)
           | (Inr False, s2) \<Rightarrow>
               (case IsDeploymentReady (req_Namespace req) (req_Name req) modelRecorder s2 of
                  (Inl e, s3) \<Rightarrow> (Inl e, s3)
                | (Inr False, s3) \<Rightarrow>
                    (Inr \<lparr>Requeue = True, RequeueAfter = time_Second * 5\<rparr>, s3)
                | (Inr True, s3) \<Rightarrow> Reconcile_endpoint req m modelRecorder deployment s3)))"

definition Reconcile_image_store :: "ImageStore \<Rightarrow> Request \<Rightarrow> Model \<Rightarrow> WrappedRecorder \<Rightarrow> Cluster \<Rightarrow> (StatusError + Result) \<times> Cluster" where
  \<comment> \<open>lines 82 to 168\<close>
  "Reconcile_image_store ims req m modelRecorder s =
     (let modelStorageClass = StorageClassName (m_Spec m);
          modelPVC = PersistentVolumeClaim (m_Spec m);
          modelPV = PersistentVolume (m_Spec m)
      in case EnsureImageStorePVCCreated ims (req_Namespace req) modelStorageClass modelPVC modelPV of
           Some e \<Rightarrow> (Inl e, s)
         | None \<Rightarrow>
             (case EnsureImageStoreStatefulSetCreated ims (req_Namespace req) of
                Inl e \<Rightarrow> (Inl e, s)
              | Inr statefulSet \<Rightarrow>
                  (case IsImageStoreStatefulSetReady ims (req_Namespace req) of
                     Inl e \<Rightarrow> (Inl e, s)
                   | Inr False \<Rightarrow> (Inr \<lparr>Requeue = True, RequeueAfter = time_Second * 5\<rparr>, s)
                   | Inr True \<Rightarrow>
                       (case EnsureImageStoreServiceCreated ims (req_Namespace req) statefulSet of
                          Some e \<Rightarrow> (Inl e, s)
                        | None \<Rightarrow>
                            (case IsImageStoreServiceReady ims (req_Namespace req) of
                               Inl e \<Rightarrow> (Inl e, s)
                             | Inr False \<Rightarrow>
                                 (Inr \<lparr>Requeue = True, RequeueAfter = time_Second * 5\<rparr>, s)
                             | Inr True \<Rightarrow> Reconcile_workload ims req m modelRecorder s)))))"

definition Reconcile_fetched :: "ImageStore \<Rightarrow> Request \<Rightarrow> Model \<Rightarrow> Cluster \<Rightarrow> (StatusError + Result) \<times> Cluster" where
  \<comment> \<open>lines 69 to 168: the pass once the Model \<open>m\<close> has been fetched\<close>
  "Reconcile_fetched ims req m s =
     (let modelRecorder = NewWrappedRecorder m
      in if \<not> IsAvailable m
         then (case SetProgressing m s of
                 (Inl e, s1) \<Rightarrow> (Inl e, s1)
               | (Inr True, s1) \<Rightarrow>
                   (Inr \<lparr>Requeue = True, RequeueAfter = time_Second * 1\<rparr>,
                    Eventf modelRecorder ''Normal'' ''ModelProgressing'' ''Model is progressing'' [] s1)
               | (Inr False, s1) \<Rightarrow> Reconcile_image_store ims req m modelRecorder s1)
         else Reconcile_image_store ims req m modelRecorder s)"

definition Reconcile :: "ImageStore \<Rightarrow> Request \<Rightarrow> Cluster \<Rightarrow> (StatusError + Result) \<times> Cluster" where
  "Reconcile ims req s =
     (case Get_Model (req_Namespace req, req_Name req) s of
        (Inl err, s1) \<Rightarrow>
          (case IgnoreNotFound err of
             None \<Rightarrow> (Inr \<lparr>Requeue = False, RequeueAfter = 0\<rparr>, s1)
           | Some e \<Rightarrow> (Inl e, s1))
      | (Inr m, s1) \<Rightarrow> Reconcile_fetched ims req m s1)"

section \<open>Sequences of passes\<close>

text \<open>
  Between two passes the rest of the cluster moves on: workloads become ready, addresses are
  assigned, the image store comes up. A pass of a run is the change \<open>p_env\<close> the environment
  makes before it, what the image store answers in it, and the request.
\<close>

record Pass =
  p_env :: "Cluster \<Rightarrow> Cluster"
  p_ims :: ImageStore
  p_req :: Request

fun run_passes :: "Cluster \<Rightarrow> Pass list \<Rightarrow> Cluster" where
  "run_passes s [] = s"
| "run_passes s (p # ps) = run_passes (snd (Reconcile (p_ims p) (p_req p) (p_env p s))) ps"

text \<open>The number of conditions of type \<open>t\<close> in the status of the Model stored under \<open>k\<close>.\<close>

definition condition_count :: "ModelStatusConditionType \<Rightarrow> Cluster \<Rightarrow> ObjectKey \<Rightarrow> nat" where
  "condition_count t s k =
     (case models s k of
        None \<Rightarrow> 0
      | Some m \<Rightarrow> length (filter (\<lambda>item. Type item = t) (Conditions (m_Status m))))"

text \<open>Every Model is stored under its own namespace and name, as the store keeps it.\<close>

definition wf_models :: "Cluster \<Rightarrow> bool" where
  "wf_models s = (\<forall>k m. models s k = Some m \<longrightarrow> meta_key (m_Meta m) = k)"

text \<open>
  The status conditions belong to the controller: a change of the environment neither
  creates, deletes nor renames a Model, and leaves the conditions as they are.
\<close>

definition env_keeps_conditions :: "(Cluster \<Rightarrow> Cluster) \<Rightarrow> bool" where
  "env_keeps_conditions f =
     (\<forall>s k. map_option (\<lambda>m. (m_Meta m, Conditions (m_Status m))) (models (f s) k) =
            map_option (\<lambda>m. (m_Meta m, Conditions (m_Status m))) (models s k))"

text \<open>The client calls made and the events recorded from \<open>s\<close> to \<open>s'\<close>.\<close>

definition new_calls :: "Cluster \<Rightarrow> Cluster \<Rightarrow> Call list" where
  "new_calls s s' = drop (length (calls s)) (calls s')"

definition new_events :: "Cluster \<Rightarrow> Cluster \<Rightarrow> Event list" where
  "new_events s s' = drop (length (events s)) (events s')"

text \<open>What one pass may do to the conditions \<open>old\<close> of the Model it fetched.\<close>

definition cond_step :: "ModelStatusCondition list \<Rightarrow> ModelStatusCondition list \<Rightarrow> bool" where
  "cond_step old new =
     (new = old \<or>
      (ModelAvailable \<notin> Type ` set old \<and> ModelProgressing \<notin> Type ` set old \<and>
       (\<exists>c. new = [c] \<and> Type c = ModelProgressing)) \<or>
      (ModelAvailable \<notin> Type ` set old \<and> (\<exists>c. new = [c] \<and> Type c = ModelAvailable)))"

definition model_step :: "Model \<Rightarrow> Cluster \<Rightarrow> Cluster \<Rightarrow> bool" where
  "model_step m s s' =
     (models s' = models s \<or>
      (\<exists>stored st. models s (meta_key (m_Meta m)) = Some stored \<and>
         models s' = (models s)(meta_key (m_Meta m) \<mapsto> stored\<lparr>m_Status := st\<rparr>) \<and>
         cond_step (Conditions (m_Status m)) (Conditions st)))"

text \<open>The same over all Models of the cluster: none appears, vanishes or is renamed.\<close>

definition model_rel :: "Model \<Rightarrow> Model \<Rightarrow> bool" where
  "model_rel m m' =
     (m_Meta m' = m_Meta m \<and> cond_step (Conditions (m_Status m)) (Conditions (m_Status m')))"

definition models_step :: "Cluster \<Rightarrow> Cluster \<Rightarrow> bool" where
  "models_step s s' = (\<forall>k. rel_option model_rel (models s k) (models s' k))"

text \<open>
  The rest of a pass whose Model has been removed from the store. \<open>quiet s s'\<close>: from \<open>s\<close>
  to \<open>s'\<close> the Models and the faults of the store are as before and no status update has been
  called. \<open>removed_outcome s p\<close>: the outcome \<open>p\<close> (result and cluster) leaves the Models as in
  \<open>s\<close>, and if a status update has been called, the result is an error, not-found or an
  error with which the store fails a call.
\<close>

definition quiet :: "Cluster \<Rightarrow> Cluster \<Rightarrow> bool" where
  "quiet s s' =
     (models s' = models s \<and> faults s' = faults s \<and>
      (\<exists>cs. calls s' = calls s @ cs \<and> list_all (\<lambda>c. fst c \<noteq> VStatusUpdate) cs))"

definition removed_outcome :: "Cluster \<Rightarrow> (StatusError + 'a) \<times> Cluster \<Rightarrow> bool" where
  "removed_outcome s p =
     (models (snd p) = models s \<and> faults (snd p) = faults s \<and>
      (\<exists>cs. calls (snd p) = calls s @ cs \<and>
         (list_ex (\<lambda>c. fst c = VStatusUpdate) cs \<longrightarrow>
            (\<exists>e. fst p = Inl e \<and> (e = NotFound \<or> (\<exists>i. faults s i = Some e))))))"

section \<open>Concrete clusters\<close>

definition ex_meta :: ObjectMeta where
  "ex_meta = \<lparr>Name = ''phi'', Namespace = ''default'', UID = ''u-1'', Labels = [],
              Annotations = [], OwnerReferences = []\<rparr>"

definition ex_model :: Model where
  "ex_model =
     \<lparr>m_APIVersion = ''ollama.ayaka.io/v1'', m_Kind = ''Model'', m_Meta = ex_meta,
      m_Spec = \<lparr>Image = ''phi'', Replicas = Some 2, StorageClassName = None,
                PersistentVolumeClaim = None, PersistentVolume = None\<rparr>,
      m_Status = \<lparr>Conditions = [], st_Replicas = 0, st_ReadyReplicas = 0,
                  st_AvailableReplicas = 0, st_UnavailableReplicas = 0\<rparr>\<rparr>"

definition ex_progressing :: Model where
  "ex_progressing =
     ex_model\<lparr>m_Status := (m_Status ex_model)
       \<lparr>Conditions := [\<lparr>Type = ModelProgressing, Status = ConditionTrue,
                         LastUpdateTime = 3, LastTransitionTime = 3\<rparr>]\<rparr>\<rparr>"

definition ex_req :: Request where
  "ex_req = \<lparr>req_Namespace = ''default'', req_Name = ''phi''\<rparr>"

definition ex_statefulSet :: StatefulSet where
  "ex_statefulSet =
     StatefulSet \<lparr>Name = ''ollama-models-store'', Namespace = ''default'', UID = ''u-2'',
                  Labels = [], Annotations = [], OwnerReferences = []\<rparr>"

text \<open>The image store up and ready, its server not ready yet, its service not ready yet.\<close>

definition ex_ims :: ImageStore where
  "ex_ims =
     \<lparr>imageStorePVCName = ''ollama-models-store-pvc'',
      EnsureImageStorePVCCreated = (\<lambda>_ _ _ _. None),
      EnsureImageStoreStatefulSetCreated = (\<lambda>_. Inr ex_statefulSet),
      IsImageStoreStatefulSetReady = (\<lambda>_. Inr True),
      EnsureImageStoreServiceCreated = (\<lambda>_ _. None),
      IsImageStoreServiceReady = (\<lambda>_. Inr True)\<rparr>"

definition ex_ims_server_waiting :: ImageStore where
  "ex_ims_server_waiting = ex_ims\<lparr>IsImageStoreStatefulSetReady := (\<lambda>_. Inr False)\<rparr>"

definition ex_ims_service_waiting :: ImageStore where
  "ex_ims_service_waiting = ex_ims\<lparr>IsImageStoreServiceReady := (\<lambda>_. Inr False)\<rparr>"

text \<open>
  A cluster that holds the fresh Model and nothing else; the same cluster after the Model
  has been fetched from it and then deleted.
\<close>

definition ex_cluster :: Cluster where
  "ex_cluster =
     \<lparr>models = [(''default'', ''phi'') \<mapsto> ex_model], deployments = Map.empty,
      services = Map.empty, events = [], calls = [], faults = (\<lambda>_. None), clock = 7\<rparr>"

definition ex_deleted :: Cluster where
  "ex_deleted = (snd (Get_Model (''default'', ''phi'') ex_cluster))\<lparr>models := Map.empty\<rparr>"

text \<open>The same cluster with a store whose first call fails on a write conflict.\<close>

definition ex_faulty :: Cluster where
  "ex_faulty = ex_cluster\<lparr>faults := (\<lambda>i. if i = 0 then Some Conflict else None)\<rparr>"

text \<open>
  A cluster in which the Model is progressing and asks for 2 replicas, while its deployment
  runs 1 replica, ready, behind a service with an address.
\<close>

definition ex_deployment :: Deployment where
  "ex_deployment =
     (newDeployment ex_ims ''default'' ''phi'' ''phi'' (Some 1) ex_model)
       \<lparr>d_Status := \<lparr>dst_Replicas = 1, dst_ReadyReplicas = 1, dst_AvailableReplicas = 1,
                     dst_UnavailableReplicas = 0\<rparr>\<rparr>"

definition ex_service :: Service where
  "ex_service =
     (newService ''default'' ''phi'' ex_deployment)
       \<lparr>s_Spec := (s_Spec (newService ''default'' ''phi'' ex_deployment))
          \<lparr>ss_ClusterIP := ''10.0.0.7''\<rparr>\<rparr>"

definition ex_drifted :: Cluster where
  "ex_drifted =
     ex_cluster\<lparr>models := [(''default'', ''phi'') \<mapsto> ex_progressing],
                deployments := [(''default'', ''ollama-model-phi'') \<mapsto> ex_deployment],
                services := [(''default'', ''ollama-model-phi'') \<mapsto> ex_service]\<rparr>"

text \<open>The same cluster with the Model fresh: no condition recorded yet.\<close>

definition ex_fresh_drifted :: Cluster where
  "ex_fresh_drifted = ex_drifted\<lparr>models := [(''default'', ''phi'') \<mapsto> ex_model]\<rparr>"

text \<open>The same cluster with the Model available.\<close>

definition ex_available :: Cluster where
  "ex_available =
     ex_drifted\<lparr>models := [(''default'', ''phi'') \<mapsto>
        ex_model\<lparr>m_Status := (m_Status ex_model)
          \<lparr>Conditions := [\<lparr>Type = ModelAvailable, Status = ConditionTrue,
                            LastUpdateTime = 5, LastTransitionTime = 5\<rparr>]\<rparr>\<rparr>]\<rparr>"

text \<open>
  The environment of the run below: nothing changes; every deployment reports 2 replicas, all
  ready; every service has an address.
\<close>

definition env_none :: "Cluster \<Rightarrow> Cluster" where
  "env_none s = s"

definition env_deployments_ready :: "Cluster \<Rightarrow> Cluster" where
  "env_deployments_ready s =
     s\<lparr>deployments := (\<lambda>k. map_option
          (\<lambda>d. d\<lparr>d_Status := \<lparr>dst_Replicas = 2, dst_ReadyReplicas = 2,
                               dst_AvailableReplicas = 2, dst_UnavailableReplicas = 0\<rparr>\<rparr>)
          (deployments s k))\<rparr>"

definition env_address_assigned :: "Cluster \<Rightarrow> Cluster" where
  "env_address_assigned s =
     s\<lparr>services := (\<lambda>k. map_option
          (\<lambda>v. v\<lparr>s_Spec := (s_Spec v)\<lparr>ss_ClusterIP := ''10.0.0.7''\<rparr>\<rparr>) (services s k))\<rparr>"

text \<open>
  The run of the fresh Model to availability: the pass that sets Progressing, two passes that
  wait for the image store, the pass that creates the deployment, the pass that creates the
  service once the deployment is ready, the pass that records the replica counters once the
  service has its address, and the pass that sets Available.
\<close>

definition ex_run :: "Pass list" where
  "ex_run =
     [\<lparr>p_env = env_none, p_ims = ex_ims_server_waiting, p_req = ex_req\<rparr>,
      \<lparr>p_env = env_none, p_ims = ex_ims_server_waiting, p_req = ex_req\<rparr>,
      \<lparr>p_env = env_none, p_ims = ex_ims_service_waiting, p_req = ex_req\<rparr>,
      \<lparr>p_env = env_none, p_ims = ex_ims, p_req = ex_req\<rparr>,
      \<lparr>p_env = env_deployments_ready, p_ims = ex_ims, p_req = ex_req\<rparr>,
      \<lparr>p_env = env_address_assigned, p_ims = ex_ims, p_req = ex_req\<rparr>,
      \<lparr>p_env = env_none, p_ims = ex_ims, p_req = ex_req\<rparr>]"

section \<open>Auxiliary facts\<close>

subsection \<open>The client calls, one equation each\<close>

lemma getDeployment_eq:
  "getDeployment ns n s =
     ((case faults s (length (calls s)) of
         Some e \<Rightarrow> if e = NotFound then Inr None else Inl e
       | None \<Rightarrow> Inr (deployments s (ns, ModelAppName n))),
      s\<lparr>calls := calls s @ [(VGet, KDeployment, (ns, ModelAppName n))]\<rparr>)"
  by (simp add: getDeployment_def Get_Deployment_def client_call_def split: option.splits)

lemma getService_eq:
  "getService ns n s =
     ((case faults s (length (calls s)) of
         Some e \<Rightarrow> if e = NotFound then Inr None else Inl e
       | None \<Rightarrow> Inr (services s (ns, ModelAppName n))),
      s\<lparr>calls := calls s @ [(VGet, KService, (ns, ModelAppName n))]\<rparr>)"
  by (simp add: getService_def Get_Service_def client_call_def split: option.splits)

lemma Get_Model_eq:
  "Get_Model k s =
     ((case faults s (length (calls s)) of
         Some e \<Rightarrow> Inl e
       | None \<Rightarrow> (case models s k of None \<Rightarrow> Inl NotFound | Some m \<Rightarrow> Inr m)),
      s\<lparr>calls := calls s @ [(VGet, KModel, k)]\<rparr>)"
  by (simp add: Get_Model_def client_call_def split: option.splits)

lemma Status_Update_eq:
  "Status_Update m s =
     (case faults s (length (calls s)) of
        Some e \<Rightarrow> (Some e, s\<lparr>calls := calls s @ [(VStatusUpdate, KModel, meta_key (m_Meta m))]\<rparr>)
      | None \<Rightarrow>
         (case models s (meta_key (m_Meta m)) of
            None \<Rightarrow> (Some NotFound, s\<lparr>calls := calls s @ [(VStatusUpdate, KModel, meta_key (m_Meta m))]\<rparr>)
          | Some stored \<Rightarrow>
              (None, s\<lparr>calls := calls s @ [(VStatusUpdate, KModel, meta_key (m_Meta m))],
                       models := (models s)(meta_key (m_Meta m) \<mapsto> stored\<lparr>m_Status := m_Status m\<rparr>)\<rparr>)))"
  by (simp add: Status_Update_def client_call_def split: option.splits)

lemma Update_Deployment_eq:
  "Update_Deployment d s =
     (case faults s (length (calls s)) of
        Some e \<Rightarrow> (Some e, s\<lparr>calls := calls s @ [(VUpdate, KDeployment, meta_key (d_Meta d))]\<rparr>)
      | None \<Rightarrow>
         (case deployments s (meta_key (d_Meta d)) of
            None \<Rightarrow> (Some NotFound, s\<lparr>calls := calls s @ [(VUpdate, KDeployment, meta_key (d_Meta d))]\<rparr>)
          | Some _ \<Rightarrow>
              (None, s\<lparr>calls := calls s @ [(VUpdate, KDeployment, meta_key (d_Meta d))],
                       deployments := (deployments s)(meta_key (d_Meta d) \<mapsto> d)\<rparr>)))"
  by (simp add: Update_Deployment_def client_call_def split: option.splits)

subsection \<open>The Models are written by status updates only\<close>

lemma models_EnsureDeploymentCreated [simp]:
  "models (snd (EnsureDeploymentCreated ims ns n img r m rec s)) = models s"
  by (simp add: EnsureDeploymentCreated_def getDeployment_eq Create_Deployment_def client_call_def
        Eventf_def Let_def split: option.splits if_splits)

lemma models_UpdateDeployment [simp]:
  "models (snd (UpdateDeployment m rec s)) = models s"
  by (simp add: UpdateDeployment_def getDeployment_eq Update_Deployment_def client_call_def
        Eventf_def Let_def split: option.splits if_splits)

lemma models_IsDeploymentReady [simp]:
  "models (snd (IsDeploymentReady ns n rec s)) = models s"
  by (simp add: IsDeploymentReady_def getDeployment_eq Eventf_def Let_def split: option.splits if_splits)

lemma models_EnsureServiceCreated [simp]:
  "models (snd (EnsureServiceCreated ns n d rec s)) = models s"
  by (simp add: EnsureServiceCreated_def getService_eq Create_Service_def client_call_def
        Eventf_def Let_def split: option.splits if_splits)

lemma models_IsServiceReady [simp]:
  "models (snd (IsServiceReady ns n rec s)) = models s"
  by (simp add: IsServiceReady_def getService_eq Eventf_def Let_def split: option.splits if_splits)

subsection \<open>What a pass does to the conditions\<close>

lemma model_step_cong: "models t = models s \<Longrightarrow> model_step m t s' = model_step m s s'"
  by (simp add: model_step_def)

lemma model_step_refl: "models s' = models s \<Longrightarrow> model_step m s s'"
  by (simp add: model_step_def)

lemma model_step_Status_Update:
  assumes "m_Meta m' = m_Meta m"
      and "cond_step (Conditions (m_Status m)) (Conditions (m_Status m'))"
  shows "model_step m s (snd (Status_Update m' s))"
proof (cases "faults s (length (calls s))")
  case (Some e)
  then show ?thesis by (simp add: Status_Update_eq model_step_def)
next
  case None
  show ?thesis
  proof (cases "models s (meta_key (m_Meta m))")
    case no: None
    with None assms(1) show ?thesis by (simp add: Status_Update_eq model_step_def)
  next
    case (Some stored)
    with None assms show ?thesis
      unfolding model_step_def
      by (intro disjI2 exI [of _ stored] exI [of _ "m_Status m'"]) (simp add: Status_Update_eq)
  qed
qed

lemma model_step_SetReplicas: "model_step m s (snd (SetReplicas m a b c d s))"
proof -
  let ?u = "m\<lparr>m_Status := (m_Status m)\<lparr>st_Replicas := a, st_ReadyReplicas := b,
                st_AvailableReplicas := c, st_UnavailableReplicas := d\<rparr>\<rparr>"
  have "model_step m s (snd (Status_Update ?u s))"
    by (rule model_step_Status_Update) (simp_all add: cond_step_def)
  then show ?thesis
    by (auto simp: SetReplicas_def Let_def split: prod.splits option.splits)
qed

lemma filter_empty_types:
  "(filter (\<lambda>item. Type item = t) cs = []) = (t \<notin> Type ` set cs)"
  by (auto simp: filter_empty_conv)

lemma model_step_SetAvailable: "model_step m s (snd (SetAvailable m s))"
proof (cases "IsAvailable m")
  case True
  then show ?thesis by (simp add: SetAvailable_def IsAvailable_def Let_def model_step_def)
next
  case False
  let ?u = "m\<lparr>m_Status := (m_Status m)\<lparr>Conditions :=
              [\<lparr>Type = ModelAvailable, Status = ConditionTrue,
                LastUpdateTime = clock s, LastTransitionTime = clock s\<rparr>]\<rparr>\<rparr>"
  have "model_step m s (snd (Status_Update ?u s))"
    using False
    by (intro model_step_Status_Update) (simp_all add: cond_step_def IsAvailable_def filter_empty_types)
  with False show ?thesis
    by (auto simp: SetAvailable_def IsAvailable_def Let_def split: prod.splits option.splits)
qed

lemma model_step_SetProgressing:
  "\<not> IsAvailable m \<Longrightarrow> model_step m s (snd (SetProgressing m s))"
proof (cases "IsProgressing m")
  case True
  then show ?thesis by (simp add: SetProgressing_def IsProgressing_def Let_def model_step_def)
next
  case False
  assume na: "\<not> IsAvailable m"
  let ?u = "m\<lparr>m_Status := (m_Status m)\<lparr>Conditions :=
              [\<lparr>Type = ModelProgressing, Status = ConditionTrue,
                LastUpdateTime = clock s, LastTransitionTime = clock s\<rparr>]\<rparr>\<rparr>"
  have "model_step m s (snd (Status_Update ?u s))"
    using False na
    by (intro model_step_Status_Update)
       (simp_all add: cond_step_def IsAvailable_def IsProgressing_def filter_empty_types)
  with False show ?thesis
    by (auto simp: SetProgressing_def IsProgressing_def Let_def split: prod.splits option.splits)
qed

lemma SetReplicas_not_False: "fst (SetReplicas m a b c d s) \<noteq> Inr False"
  by (simp add: SetReplicas_def Let_def split: prod.splits option.splits)

lemma model_step_status: "model_step m s (snd (Reconcile_status m rec d s))"
proof (cases "ShouldSetReplicas m (dst_Replicas (d_Status d)) (dst_ReadyReplicas (d_Status d))
          (dst_AvailableReplicas (d_Status d)) (dst_UnavailableReplicas (d_Status d))")
  case True
  obtain r s1 where eq: "SetReplicas m (dst_Replicas (d_Status d)) (dst_ReadyReplicas (d_Status d))
          (dst_AvailableReplicas (d_Status d)) (dst_UnavailableReplicas (d_Status d)) s = (r, s1)"
    by (cases "SetReplicas m (dst_Replicas (d_Status d)) (dst_ReadyReplicas (d_Status d))
          (dst_AvailableReplicas (d_Status d)) (dst_UnavailableReplicas (d_Status d)) s")
  have "model_step m s s1" "r \<noteq> Inr False"
    using model_step_SetReplicas [of m s] SetReplicas_not_False [of m _ _ _ _ s] eq
    by (metis snd_conv, metis fst_conv)
  with True eq show ?thesis
    by (cases r) (auto simp: Reconcile_status_def Reconcile_counters_def)
next
  case False
  obtain r s1 where eq: "SetAvailable m s = (r, s1)"
    by (cases "SetAvailable m s")
  have "model_step m s s1"
    using model_step_SetAvailable [of m s] eq by simp
  with False eq show ?thesis
    by (cases r) (auto simp: Reconcile_status_def Reconcile_counters_def Eventf_def model_step_def)
qed

lemma model_step_endpoint: "model_step m s (snd (Reconcile_endpoint req m rec d s))"
proof -
  let ?s1 = "snd (EnsureServiceCreated (req_Namespace req) (req_Name req) d rec s)"
  let ?s2 = "snd (IsServiceReady (req_Namespace req) (req_Name req) rec ?s1)"
  have m2: "models ?s2 = models s" by simp
  have "model_step m s (snd (Reconcile_status m rec d ?s2))"
    using model_step_status [of m ?s2 rec d] model_step_cong [OF m2] by simp
  moreover have "model_step m s ?s1" "model_step m s ?s2"
    by (simp_all add: model_step_refl)
  ultimately show ?thesis
    by (auto simp: Reconcile_endpoint_def split: prod.splits sum.splits bool.splits)
qed

lemma model_step_workload: "model_step m s (snd (Reconcile_workload ims req m rec s))"
proof -
  let ?s1 = "snd (EnsureDeploymentCreated ims (req_Namespace req) (req_Name req) (Image (m_Spec m))
             (Replicas (m_Spec m)) m rec s)"
  let ?s2 = "snd (UpdateDeployment m rec ?s1)"
  let ?s3 = "snd (IsDeploymentReady (req_Namespace req) (req_Name req) rec ?s2)"
  have m3: "models ?s3 = models s" by simp
  have "model_step m s (snd (Reconcile_endpoint req m rec d ?s3))" for d
    using model_step_endpoint [of m ?s3 req rec d] model_step_cong [OF m3] by simp
  moreover have "model_step m s ?s1" "model_step m s ?s2" "model_step m s ?s3"
    by (simp_all add: model_step_refl)
  ultimately show ?thesis
    by (auto simp: Reconcile_workload_def split: prod.splits sum.splits bool.splits)
qed

lemma model_step_image_store: "model_step m s (snd (Reconcile_image_store ims req m rec s))"
  using model_step_workload [of m s ims req rec]
  by (auto simp: Reconcile_image_store_def Let_def model_step_refl
        split: option.splits sum.splits bool.splits)

lemma model_step_fetched: "model_step m s (snd (Reconcile_fetched ims req m s))"
proof (cases "IsAvailable m")
  case True
  then show ?thesis
    using model_step_image_store by (simp add: Reconcile_fetched_def Let_def)
next
  case False
  show ?thesis
  proof (cases "IsProgressing m")
    case True
    with False show ?thesis
      using model_step_image_store
      by (simp add: Reconcile_fetched_def SetProgressing_def IsProgressing_def Let_def)
  next
    case np: False
    have "fst (SetProgressing m s) \<noteq> Inr False"
      using np by (simp add: SetProgressing_def IsProgressing_def Let_def split: prod.splits option.splits)
    then show ?thesis
      using False model_step_SetProgressing [OF False, of s]
      by (auto simp: Reconcile_fetched_def Let_def Eventf_def model_step_def
            split: prod.splits sum.splits bool.splits)
  qed
qed


subsection \<open>Runs of passes\<close>

lemma models_stepD: "models_step s s' \<Longrightarrow> rel_option model_rel (models s k) (models s' k)"
  unfolding models_step_def by blast

lemma models_stepI: "(\<And>k. rel_option model_rel (models s k) (models s' k)) \<Longrightarrow> models_step s s'"
  unfolding models_step_def by blast

lemma cond_step_refl: "cond_step cs cs"
  by (simp add: cond_step_def)

lemma cond_step_trans: "cond_step a b \<Longrightarrow> cond_step b c \<Longrightarrow> cond_step a c"
  by (auto simp: cond_step_def)

lemma model_rel_refl: "model_rel m m"
  by (simp add: model_rel_def cond_step_refl)

lemma model_rel_trans: "model_rel a b \<Longrightarrow> model_rel b c \<Longrightarrow> model_rel a c"
  unfolding model_rel_def using cond_step_trans by auto

lemma models_step_same: "models s' = models s \<Longrightarrow> models_step s s'"
  by (rule models_stepI) (simp add: option.rel_refl model_rel_refl)

lemma models_step_trans:
  assumes "models_step a b" "models_step b c"
  shows "models_step a c"
proof (rule models_stepI)
  fix k
  show "rel_option model_rel (models a k) (models c k)"
    using models_stepD [OF assms(1), of k] models_stepD [OF assms(2), of k]
    by (cases "models a k"; cases "models b k"; cases "models c k")
       (auto intro: model_rel_trans)
qed

lemma models_step_wf:
  assumes "models_step s s'" "wf_models s"
  shows "wf_models s'"
  unfolding wf_models_def
proof (intro allI impI)
  fix k m'
  assume m': "models s' k = Some m'"
  with models_stepD [OF assms(1), of k] obtain m where "models s k = Some m" "model_rel m m'"
    by (cases "models s k") auto
  moreover from this assms(2) have "meta_key (m_Meta m) = k"
    unfolding wf_models_def by blast
  ultimately show "meta_key (m_Meta m') = k"
    by (simp add: model_rel_def)
qed

lemma models_step_env:
  assumes "env_keeps_conditions f"
  shows "models_step s (f s)"
proof (rule models_stepI)
  fix k
  from assms have "map_option (\<lambda>m. (m_Meta m, Conditions (m_Status m))) (models (f s) k) =
            map_option (\<lambda>m. (m_Meta m, Conditions (m_Status m))) (models s k)"
    unfolding env_keeps_conditions_def by blast
  then show "rel_option model_rel (models s k) (models (f s) k)"
    by (cases "models s k"; cases "models (f s) k") (auto simp: model_rel_def cond_step_refl)
qed

lemma model_step_models_step:
  assumes "model_step m s s'" "models s (meta_key (m_Meta m)) = Some m"
  shows "models_step s s'"
proof (rule models_stepI)
  fix k
  from assms(1) consider "models s' = models s"
    | stored st where "models s (meta_key (m_Meta m)) = Some stored"
        "models s' = (models s)(meta_key (m_Meta m) \<mapsto> stored\<lparr>m_Status := st\<rparr>)"
        "cond_step (Conditions (m_Status m)) (Conditions st)"
    unfolding model_step_def by blast
  then show "rel_option model_rel (models s k) (models s' k)"
  proof cases
    case 1
    then show ?thesis by (simp add: option.rel_refl model_rel_refl)
  next
    case 2
    with assms(2) have "stored = m" by simp
    with 2 assms(2) show ?thesis
      by (cases "k = meta_key (m_Meta m)") (simp_all add: option.rel_refl model_rel_refl model_rel_def)
  qed
qed

lemma Reconcile_models_step:
  assumes "wf_models s"
  shows "models_step s (snd (Reconcile ims req s))"
proof (cases "fst (Get_Model (req_Namespace req, req_Name req) s)")
  case (Inl e)
  then have "models (snd (Reconcile ims req s)) = models s"
    by (auto simp: Reconcile_def Get_Model_eq IgnoreNotFound_def split: option.splits)
  then show ?thesis by (rule models_step_same)
next
  case (Inr m)
  let ?t = "s\<lparr>calls := calls s @ [(VGet, KModel, (req_Namespace req, req_Name req))]\<rparr>"
  from Inr have stored: "models s (req_Namespace req, req_Name req) = Some m"
    by (auto simp: Get_Model_eq split: option.splits)
  with assms have key: "meta_key (m_Meta m) = (req_Namespace req, req_Name req)"
    by (simp add: wf_models_def)
  have r: "Reconcile ims req s = Reconcile_fetched ims req m ?t"
    using Inr by (auto simp: Reconcile_def Get_Model_eq split: option.splits)
  have "model_step m ?t (snd (Reconcile_fetched ims req m ?t))"
    by (rule model_step_fetched)
  then have "model_step m s (snd (Reconcile ims req s))"
    using model_step_cong [of ?t s m] r by simp
  then show ?thesis
    using stored key by (intro model_step_models_step [of m]) simp_all
qed

lemma run_passes_models_step:
  assumes "wf_models s" "\<forall>p\<in>set ps. env_keeps_conditions (p_env p)"
  shows "models_step s (run_passes s ps)"
  using assms
proof (induction ps arbitrary: s)
  case Nil
  then show ?case by (simp add: models_step_same)
next
  case (Cons p ps)
  let ?e = "p_env p s"
  let ?s1 = "snd (Reconcile (p_ims p) (p_req p) ?e)"
  have e: "models_step s ?e" using Cons.prems(2) by (simp add: models_step_env)
  then have we: "wf_models ?e" using Cons.prems(1) models_step_wf by blast
  then have p: "models_step ?e ?s1" by (rule Reconcile_models_step)
  then have "wf_models ?s1" using we models_step_wf by blast
  then have "models_step ?s1 (run_passes ?s1 ps)"
    using Cons.IH Cons.prems(2) by simp
  then have "models_step s (run_passes ?s1 ps)"
    using e p models_step_trans by blast
  then show ?case by simp
qed

lemma condition_types_distinct: "ModelProgressing \<noteq> ModelAvailable"
  by (simp add: ModelProgressing_def ModelAvailable_def)

subsection \<open>A Model removed after the fetch\<close>

lemma quiet_refl: "quiet s s"
  by (simp add: quiet_def)

lemma quiet_trans: "quiet a b \<Longrightarrow> quiet b c \<Longrightarrow> quiet a c"
  by (auto simp: quiet_def)

lemma quiet_Eventf: "quiet s (Eventf rec t r f a s)"
  by (simp add: quiet_def Eventf_def)

lemma quiet_EnsureDeploymentCreated:
  "quiet s (snd (EnsureDeploymentCreated ims ns n img r m rec s))"
  by (simp add: quiet_def EnsureDeploymentCreated_def getDeployment_eq Create_Deployment_def
        client_call_def Eventf_def Let_def split: option.splits if_splits)

lemma quiet_UpdateDeployment: "quiet s (snd (UpdateDeployment m rec s))"
  by (simp add: quiet_def UpdateDeployment_def getDeployment_eq Update_Deployment_eq
        Eventf_def Let_def split: option.splits if_splits)

lemma quiet_IsDeploymentReady: "quiet s (snd (IsDeploymentReady ns n rec s))"
  by (simp add: quiet_def IsDeploymentReady_def getDeployment_eq Eventf_def Let_def
        split: option.splits if_splits)

lemma quiet_EnsureServiceCreated: "quiet s (snd (EnsureServiceCreated ns n d rec s))"
  by (simp add: quiet_def EnsureServiceCreated_def getService_eq Create_Service_def
        client_call_def Eventf_def Let_def split: option.splits if_splits)

lemma quiet_IsServiceReady: "quiet s (snd (IsServiceReady ns n rec s))"
  by (simp add: quiet_def IsServiceReady_def getService_eq Eventf_def Let_def
        split: option.splits if_splits)

lemma removed_outcome_quiet: "quiet s (snd p) \<Longrightarrow> removed_outcome s p"
  by (auto simp: quiet_def removed_outcome_def list_all_iff list_ex_iff)

lemma removed_outcome_after:
  assumes "quiet s t" "removed_outcome t p"
  shows "removed_outcome s p"
proof -
  from assms(1) obtain cs1 where 1: "models t = models s" "faults t = faults s"
      "calls t = calls s @ cs1" "list_all (\<lambda>c. fst c \<noteq> VStatusUpdate) cs1"
    by (auto simp: quiet_def)
  from assms(2) obtain cs2 where 2: "models (snd p) = models t" "faults (snd p) = faults t"
      "calls (snd p) = calls t @ cs2"
      "list_ex (\<lambda>c. fst c = VStatusUpdate) cs2 \<longrightarrow>
         (\<exists>e. fst p = Inl e \<and> (e = NotFound \<or> (\<exists>i. faults t i = Some e)))"
    by (auto simp: removed_outcome_def)
  have "list_ex (\<lambda>c. fst c = VStatusUpdate) (cs1 @ cs2) \<longrightarrow> list_ex (\<lambda>c. fst c = VStatusUpdate) cs2"
    using 1(4) by (auto simp: list_all_iff list_ex_iff)
  with 1 2 show ?thesis
    unfolding removed_outcome_def
    by (intro conjI exI [of _ "cs1 @ cs2"]) auto
qed

lemma removed_outcome_Inl:
  "removed_outcome s ((Inl e, t) :: (StatusError + 'a) \<times> Cluster) =
   removed_outcome s ((Inl e, t) :: (StatusError + 'b) \<times> Cluster)"
  by (simp add: removed_outcome_def)

lemma Status_Update_removed:
  assumes "models s (meta_key (m_Meta m)) = None"
  shows "\<exists>e. Status_Update m s =
           (Some e, s\<lparr>calls := calls s @ [(VStatusUpdate, KModel, meta_key (m_Meta m))]\<rparr>) \<and>
           (e = NotFound \<or> faults s (length (calls s)) = Some e)"
  using assms by (simp add: Status_Update_eq split: option.splits)


lemma removed_write:
  assumes "models s (meta_key (m_Meta m)) = None"
  shows "removed_outcome s
           (case Status_Update m s of
              (Some e, s') \<Rightarrow> (Inl e, s')
            | (None, s') \<Rightarrow> (Inr True, s'))"
proof -
  from Status_Update_removed [OF assms] obtain e where
    e: "Status_Update m s =
           (Some e, s\<lparr>calls := calls s @ [(VStatusUpdate, KModel, meta_key (m_Meta m))]\<rparr>)"
       "e = NotFound \<or> faults s (length (calls s)) = Some e"
    by blast
  show ?thesis
    unfolding removed_outcome_def e(1)
    using e(2) by (intro conjI exI [of _ "[(VStatusUpdate, KModel, meta_key (m_Meta m))]"]) auto
qed

lemma removed_SetReplicas:
  assumes "models s (meta_key (m_Meta m)) = None"
  shows "removed_outcome s (SetReplicas m a b c d s)"
  using removed_write [of s "m\<lparr>m_Status := (m_Status m)\<lparr>st_Replicas := a, st_ReadyReplicas := b,
                st_AvailableReplicas := c, st_UnavailableReplicas := d\<rparr>\<rparr>"] assms
  by (simp add: SetReplicas_def Let_def)

lemma removed_SetAvailable:
  assumes "models s (meta_key (m_Meta m)) = None"
  shows "removed_outcome s (SetAvailable m s)"
proof (cases "IsAvailable m")
  case True
  then show ?thesis
    by (simp add: SetAvailable_def IsAvailable_def Let_def removed_outcome_quiet quiet_refl)
next
  case False
  then show ?thesis
    using removed_write [of s "m\<lparr>m_Status := (m_Status m)\<lparr>Conditions :=
              [\<lparr>Type = ModelAvailable, Status = ConditionTrue,
                LastUpdateTime = clock s, LastTransitionTime = clock s\<rparr>]\<rparr>\<rparr>"] assms
    by (simp add: SetAvailable_def IsAvailable_def Let_def)
qed

lemma removed_SetProgressing:
  assumes "models s (meta_key (m_Meta m)) = None"
  shows "removed_outcome s (SetProgressing m s)"
proof (cases "IsProgressing m")
  case True
  then show ?thesis
    by (simp add: SetProgressing_def IsProgressing_def Let_def removed_outcome_quiet quiet_refl)
next
  case False
  then show ?thesis
    using removed_write [of s "m\<lparr>m_Status := (m_Status m)\<lparr>Conditions :=
              [\<lparr>Type = ModelProgressing, Status = ConditionTrue,
                LastUpdateTime = clock s, LastTransitionTime = clock s\<rparr>]\<rparr>\<rparr>"] assms
    by (simp add: SetProgressing_def IsProgressing_def Let_def)
qed

lemma SetReplicas_removed:
  assumes "models s (meta_key (m_Meta m)) = None"
  shows "\<exists>e. fst (SetReplicas m a b c d s) = Inl e"
  using assms by (simp add: SetReplicas_def Status_Update_eq Let_def split: option.splits)

lemma removed_outcome_cases:
  fixes p :: "(StatusError + 'a) \<times> Cluster"
  assumes "removed_outcome s p"
  obtains (err) e where "fst p = Inl e" | (ok) "quiet s (snd p)"
proof (cases "fst p")
  case (Inl e)
  then show ?thesis using err by blast
next
  case (Inr v)
  with assms have "quiet s (snd p)"
    by (auto simp: removed_outcome_def quiet_def list_all_iff list_ex_iff)
  then show ?thesis using ok by blast
qed

lemma removed_status:
  assumes "models s (meta_key (m_Meta m)) = None"
  shows "removed_outcome s (Reconcile_status m rec d s)"
proof (cases "ShouldSetReplicas m (dst_Replicas (d_Status d)) (dst_ReadyReplicas (d_Status d))
          (dst_AvailableReplicas (d_Status d)) (dst_UnavailableReplicas (d_Status d))")
  case True
  obtain x s1 where eq: "SetReplicas m (dst_Replicas (d_Status d)) (dst_ReadyReplicas (d_Status d))
          (dst_AvailableReplicas (d_Status d)) (dst_UnavailableReplicas (d_Status d)) s = (x, s1)"
    by (cases "SetReplicas m (dst_Replicas (d_Status d)) (dst_ReadyReplicas (d_Status d))
          (dst_AvailableReplicas (d_Status d)) (dst_UnavailableReplicas (d_Status d)) s")
  have ro: "removed_outcome s (x, s1)"
    using removed_SetReplicas [OF assms] eq by metis
  have "\<exists>e. x = Inl e"
    using eq SetReplicas_removed [OF assms, of "dst_Replicas (d_Status d)"
        "dst_ReadyReplicas (d_Status d)" "dst_AvailableReplicas (d_Status d)"
        "dst_UnavailableReplicas (d_Status d)"]
    by simp
  then obtain e where "x = Inl e" by blast
  with True eq ro show ?thesis
    by (simp add: Reconcile_status_def Reconcile_counters_def removed_outcome_def)
next
  case False
  obtain x s1 where eq: "SetAvailable m s = (x, s1)" by (cases "SetAvailable m s")
  have ro: "removed_outcome s (x, s1)"
    using removed_SetAvailable [OF assms] eq by simp
  show ?thesis
  proof (cases x)
    case (Inl e)
    with False eq ro show ?thesis
      by (simp add: Reconcile_status_def Reconcile_counters_def removed_outcome_def)
  next
    case (Inr v)
    with ro have "quiet s s1"
      by (auto elim: removed_outcome_cases)
    then have "quiet s (Eventf rec ''Normal'' ''ModelAvailable'' ''Model is available'' [] s1)"
      using quiet_Eventf quiet_trans by blast
    with Inr False eq show ?thesis
      by (simp add: Reconcile_status_def Reconcile_counters_def removed_outcome_quiet)
  qed
qed


lemma removed_endpoint:
  assumes "models s (meta_key (m_Meta m)) = None"
  shows "removed_outcome s (Reconcile_endpoint req m rec d s)"
proof -
  obtain x s1 where e1: "EnsureServiceCreated (req_Namespace req) (req_Name req) d rec s = (x, s1)"
    by (cases "EnsureServiceCreated (req_Namespace req) (req_Name req) d rec s")
  obtain y s2 where e2: "IsServiceReady (req_Namespace req) (req_Name req) rec s1 = (y, s2)"
    by (cases "IsServiceReady (req_Namespace req) (req_Name req) rec s1")
  have q1: "quiet s s1" using quiet_EnsureServiceCreated [of s] e1 by (metis snd_conv)
  have "quiet s1 s2" using quiet_IsServiceReady [of s1] e2 by (metis snd_conv)
  with q1 have q2: "quiet s s2" by (rule quiet_trans)
  then have "models s2 (meta_key (m_Meta m)) = None" using assms by (simp add: quiet_def)
  then have "removed_outcome s2 (Reconcile_status m rec d s2)" by (rule removed_status)
  with q2 have r: "removed_outcome s (Reconcile_status m rec d s2)" by (rule removed_outcome_after)
  show ?thesis
    using e1 e2 q1 q2 r
    by (auto simp: Reconcile_endpoint_def removed_outcome_quiet split: sum.splits bool.splits)
qed

lemma removed_workload:
  assumes "models s (meta_key (m_Meta m)) = None"
  shows "removed_outcome s (Reconcile_workload ims req m rec s)"
proof -
  obtain x s1 where e1: "EnsureDeploymentCreated ims (req_Namespace req) (req_Name req)
        (Image (m_Spec m)) (Replicas (m_Spec m)) m rec s = (x, s1)"
    by (cases "EnsureDeploymentCreated ims (req_Namespace req) (req_Name req)
        (Image (m_Spec m)) (Replicas (m_Spec m)) m rec s")
  obtain y s2 where e2: "UpdateDeployment m rec s1 = (y, s2)"
    by (cases "UpdateDeployment m rec s1")
  obtain z s3 where e3: "IsDeploymentReady (req_Namespace req) (req_Name req) rec s2 = (z, s3)"
    by (cases "IsDeploymentReady (req_Namespace req) (req_Name req) rec s2")
  have q1: "quiet s s1" using quiet_EnsureDeploymentCreated [of s] e1 by (metis snd_conv)
  have "quiet s1 s2" using quiet_UpdateDeployment [of s1] e2 by (metis snd_conv)
  with q1 have q2: "quiet s s2" by (rule quiet_trans)
  have "quiet s2 s3" using quiet_IsDeploymentReady [of s2] e3 by (metis snd_conv)
  with q2 have q3: "quiet s s3" by (rule quiet_trans)
  then have "models s3 (meta_key (m_Meta m)) = None" using assms by (simp add: quiet_def)
  then have "removed_outcome s3 (Reconcile_endpoint req m rec d s3)" for d
    by (rule removed_endpoint)
  with q3 have r: "removed_outcome s (Reconcile_endpoint req m rec d s3)" for d
    by (rule removed_outcome_after)
  show ?thesis
    using e1 e2 e3 q1 q2 q3 r
    by (auto simp: Reconcile_workload_def removed_outcome_quiet split: sum.splits bool.splits)
qed

lemma removed_image_store:
  assumes "models s (meta_key (m_Meta m)) = None"
  shows "removed_outcome s (Reconcile_image_store ims req m rec s)"
  using removed_workload [OF assms, of ims req rec]
  by (auto simp: Reconcile_image_store_def Let_def removed_outcome_quiet quiet_refl
        split: option.splits sum.splits bool.splits)

lemma removed_fetched:
  assumes "models s (meta_key (m_Meta m)) = None"
  shows "removed_outcome s (Reconcile_fetched ims req m s)"
proof (cases "IsAvailable m")
  case True
  then show ?thesis
    using removed_image_store [OF assms] by (simp add: Reconcile_fetched_def Let_def)
next
  case False
  obtain x s1 where eq: "SetProgressing m s = (x, s1)" by (cases "SetProgressing m s")
  have ro: "removed_outcome s (x, s1)"
    using removed_SetProgressing [OF assms] eq by simp
  show ?thesis
  proof (cases x)
    case (Inl e)
    with False eq ro show ?thesis
      by (simp add: Reconcile_fetched_def Let_def removed_outcome_def)
  next
    case (Inr v)
    with ro have q: "quiet s s1" by (auto elim: removed_outcome_cases)
    show ?thesis
    proof (cases v)
      case True
      have "quiet s (Eventf (NewWrappedRecorder m) ''Normal'' ''ModelProgressing''
                       ''Model is progressing'' [] s1)"
        using q quiet_Eventf quiet_trans by blast
      with True Inr False eq show ?thesis
        by (simp add: Reconcile_fetched_def Let_def removed_outcome_quiet)
    next
      case f: False
      from q assms have "models s1 (meta_key (m_Meta m)) = None" by (simp add: quiet_def)
      then have "removed_outcome s1 (Reconcile_image_store ims req m (NewWrappedRecorder m) s1)"
        by (rule removed_image_store)
      with q have "removed_outcome s (Reconcile_image_store ims req m (NewWrappedRecorder m) s1)"
        by (rule removed_outcome_after)
      with f Inr False eq show ?thesis
        by (simp add: Reconcile_fetched_def Let_def)
    qed
  qed
qed

subsection \<open>Creating once\<close>

lemma newDeployment_key [simp]:
  "meta_key (d_Meta (newDeployment ims ns n img r m)) = (ns, ModelAppName n)"
  by (simp add: newDeployment_def meta_key_def)

lemma newDeployment_Name [simp]:
  "Name (d_Meta (newDeployment ims ns n img r m)) = ModelAppName n"
  by (simp add: newDeployment_def)

lemma newService_key [simp]:
  "meta_key (s_Meta (newService ns n d)) = (ns, ModelAppName n)"
  by (simp add: newService_def meta_key_def)

lemma newService_Name [simp]:
  "Name (s_Meta (newService ns n d)) = ModelAppName n"
  by (simp add: newService_def)

lemma EnsureDeploymentCreated_stored:
  assumes "EnsureDeploymentCreated ims ns n img r m rec s = (Inr d, s1)"
  shows "deployments s1 (ns, ModelAppName n) = Some d"
  using assms
  by (auto simp: EnsureDeploymentCreated_def getDeployment_eq Create_Deployment_def client_call_def
        Eventf_def Let_def split: option.splits if_splits)

lemma EnsureDeploymentCreated_events:
  assumes "EnsureDeploymentCreated ims ns n img r m rec s = (Inr d, s1)"
  shows "events s1 = (if deployments s (ns, ModelAppName n) = None
                   then events s @ [\<lparr>ev_Object = rec, ev_Type = ''Normal'',
                          ev_Reason = ''DeploymentCreated'', ev_Format = ''Deployment %s created'',
                          ev_Args = [ArgString (ModelAppName n)]\<rparr>]
                   else events s)"
  using assms
  by (auto simp: EnsureDeploymentCreated_def getDeployment_eq Create_Deployment_def client_call_def
        Eventf_def Let_def split: option.splits if_splits)

lemma EnsureDeploymentCreated_present:
  assumes "deployments s (ns, ModelAppName n) = Some d" "faults s (length (calls s)) = None"
  shows "EnsureDeploymentCreated ims ns n img r m rec s =
        (Inr d, s\<lparr>calls := calls s @ [(VGet, KDeployment, (ns, ModelAppName n))]\<rparr>)"
  using assms by (simp add: EnsureDeploymentCreated_def getDeployment_eq)

lemma EnsureServiceCreated_stored:
  assumes "EnsureServiceCreated ns n dep rec s = (Inr v, s1)"
  shows "services s1 (ns, ModelAppName n) = Some v"
  using assms
  by (auto simp: EnsureServiceCreated_def getService_eq Create_Service_def client_call_def
        Eventf_def Let_def split: option.splits if_splits)

lemma EnsureServiceCreated_events:
  assumes "EnsureServiceCreated ns n dep rec s = (Inr v, s1)"
  shows "events s1 = (if services s (ns, ModelAppName n) = None
                   then events s @ [\<lparr>ev_Object = rec, ev_Type = ''Normal'',
                          ev_Reason = ''ServiceCreated'', ev_Format = ''Service %s created'',
                          ev_Args = [ArgString (ModelAppName n)]\<rparr>]
                   else events s)"
  using assms
  by (auto simp: EnsureServiceCreated_def getService_eq Create_Service_def client_call_def
        Eventf_def Let_def split: option.splits if_splits)

lemma EnsureServiceCreated_present:
  assumes "services s (ns, ModelAppName n) = Some v" "faults s (length (calls s)) = None"
  shows "EnsureServiceCreated ns n dep rec s =
        (Inr v, s\<lparr>calls := calls s @ [(VGet, KService, (ns, ModelAppName n))]\<rparr>)"
  using assms by (simp add: EnsureServiceCreated_def getService_eq)

subsection \<open>Waiting for the image store\<close>

lemma image_store_waiting:
  assumes "IsImageStoreStatefulSetReady ims (req_Namespace req) = Inr False \<or>
           IsImageStoreServiceReady ims (req_Namespace req) = Inr False"
  shows "snd (Reconcile_image_store ims req m rec s) = s"
  using assms
  by (auto simp: Reconcile_image_store_def Let_def split: option.splits sum.splits bool.splits)

lemma image_store_waiting_result:
  assumes "IsImageStoreStatefulSetReady ims (req_Namespace req) = Inr False \<or>
           IsImageStoreServiceReady ims (req_Namespace req) = Inr False"
   and "EnsureImageStorePVCCreated ims (req_Namespace req) (StorageClassName (m_Spec m))
            (PersistentVolumeClaim (m_Spec m)) (PersistentVolume (m_Spec m)) = None"
   and "EnsureImageStoreStatefulSetCreated ims (req_Namespace req) = Inr sts"
   and "IsImageStoreStatefulSetReady ims (req_Namespace req) = Inr False \<or>
        IsImageStoreStatefulSetReady ims (req_Namespace req) = Inr True \<and>
        EnsureImageStoreServiceCreated ims (req_Namespace req) sts = None"
  shows "fst (Reconcile_image_store ims req m rec s) = Inr \<lparr>Requeue = True, RequeueAfter = time_Second * 5\<rparr>"
  using assms
  by (auto simp: Reconcile_image_store_def Let_def split: option.splits sum.splits bool.splits)

subsection \<open>The concrete clusters\<close>

lemmas ex_defs = ex_meta_def ex_model_def ex_progressing_def ex_req_def ex_statefulSet_def
  ex_ims_def ex_ims_server_waiting_def ex_ims_service_waiting_def ex_cluster_def ex_deleted_def
  ex_faulty_def ex_deployment_def ex_service_def ex_drifted_def ex_fresh_drifted_def
  ex_available_def env_none_def
  env_deployments_ready_def env_address_assigned_def ex_run_def

lemmas code_defs = client_call_def Get_Model_def Get_Deployment_def Get_Service_def
  Create_Deployment_def Create_Service_def Update_Deployment_def Status_Update_def
  meta_key_def NewWrappedRecorder_def Eventf_def IsProgressing_def SetProgressing_def
  IsAvailable_def SetAvailable_def ShouldSetReplicas_def SetReplicas_def ModelAppName_def
  getDeployment_def newDeployment_def EnsureDeploymentCreated_def IsDeploymentReady_def
  UpdateDeployment_def getService_def newService_def EnsureServiceCreated_def IsServiceReady_def
  time_Second_def IgnoreNotFound_def Reconcile_counters_def Reconcile_status_def
  Reconcile_endpoint_def Reconcile_workload_def Reconcile_image_store_def Reconcile_fetched_def
  Reconcile_def ModelAvailable_def ModelProgressing_def

lemma wf_ex_drifted: "wf_models ex_drifted"
  by (auto simp: wf_models_def ex_defs meta_key_def split: if_splits)

lemma wf_ex_available: "wf_models ex_available"
  by (auto simp: wf_models_def ex_defs meta_key_def split: if_splits)

lemma env_keeps_ex_run: "\<forall>p\<in>set ex_run. env_keeps_conditions (p_env p)"
  by (simp add: ex_run_def env_keeps_conditions_def env_none_def env_deployments_ready_def
        env_address_assigned_def)

section \<open>The claims\<close>

text \<open>
  C1, as amended. Over every run of reconcile passes, with the environment free to change
  anything but the conditions between the passes: Available, once in the conditions of a
  Model, is in them after every later pass; Progressing, once in them, stays until Available
  takes its place (the pass that sets Available replaces the list, so Progressing is gone from
  then on); and a list that holds each condition type at most once does so after every later
  pass.
\<close>

theorem conditions_monotonic:
  assumes "wf_models s" and "\<forall>p\<in>set ps. env_keeps_conditions (p_env p)"
  shows "(0 < condition_count ModelAvailable s k \<longrightarrow>
            0 < condition_count ModelAvailable (run_passes s ps) k) \<and>
         (0 < condition_count ModelProgressing s k \<longrightarrow>
            0 < condition_count ModelProgressing (run_passes s ps) k \<or>
            0 < condition_count ModelAvailable (run_passes s ps) k) \<and>
         ((\<forall>t. condition_count t s k \<le> 1) \<longrightarrow>
            (\<forall>t. condition_count t (run_passes s ps) k \<le> 1))"
proof -
  let ?s' = "run_passes s ps"
  have "models_step s ?s'" using assms by (rule run_passes_models_step)
  then have rel: "rel_option model_rel (models s k) (models ?s' k)"
    by (rule models_stepD)
  show ?thesis
  proof (cases "models s k")
    case None
    with rel have "models ?s' k = None" by (cases "models ?s' k") auto
    with None show ?thesis by (simp add: condition_count_def)
  next
    case (Some m)
    with rel obtain m' where m': "models ?s' k = Some m'"
      and cs: "cond_step (Conditions (m_Status m)) (Conditions (m_Status m'))"
      by (cases "models ?s' k") (auto simp: model_rel_def)
    have a: "0 < condition_count ModelAvailable s k \<longrightarrow> 0 < condition_count ModelAvailable ?s' k"
      using cs Some m' by (auto simp: condition_count_def filter_empty_types cond_step_def condition_types_distinct)
    have b: "0 < condition_count ModelProgressing s k \<longrightarrow>
            0 < condition_count ModelProgressing ?s' k \<or> 0 < condition_count ModelAvailable ?s' k"
      using cs Some m' by (auto simp: condition_count_def filter_empty_types cond_step_def condition_types_distinct)
    have c: "(\<forall>t. condition_count t s k \<le> 1) \<longrightarrow> (\<forall>t. condition_count t ?s' k \<le> 1)"
      using cs Some m' by (auto simp: condition_count_def cond_step_def)
    from a b c show ?thesis by blast
  qed
qed

theorem conditions_monotonic_witness:
  "wf_models ex_available \<and> wf_models ex_drifted \<and>
   list_all (\<lambda>p. env_keeps_conditions (p_env p)) ex_run \<and>
   0 < condition_count ModelAvailable ex_available (''default'', ''phi'') \<and>
   0 < condition_count ModelAvailable (run_passes ex_available ex_run) (''default'', ''phi'') \<and>
   0 < condition_count ModelProgressing ex_drifted (''default'', ''phi'') \<and>
   (0 < condition_count ModelProgressing (run_passes ex_drifted ex_run) (''default'', ''phi'') \<or>
    0 < condition_count ModelAvailable (run_passes ex_drifted ex_run) (''default'', ''phi'')) \<and>
   (\<forall>t. condition_count t ex_drifted (''default'', ''phi'') \<le> 1) \<and>
   (\<forall>t. condition_count t (run_passes ex_drifted ex_run) (''default'', ''phi'') \<le> 1)"
proof -
  have a: "0 < condition_count ModelAvailable ex_available (''default'', ''phi'')"
    by (simp add: ex_defs condition_count_def)
  have p: "0 < condition_count ModelProgressing ex_drifted (''default'', ''phi'')"
    by (simp add: ex_defs condition_count_def)
  have u: "\<forall>t. condition_count t ex_drifted (''default'', ''phi'') \<le> 1"
    by (simp add: ex_defs condition_count_def)
  have a': "0 < condition_count ModelAvailable (run_passes ex_available ex_run) (''default'', ''phi'')"
    using conditions_monotonic [OF wf_ex_available env_keeps_ex_run, of "(''default'', ''phi'')"] a by simp
  have p': "0 < condition_count ModelProgressing (run_passes ex_drifted ex_run) (''default'', ''phi'') \<or>
            0 < condition_count ModelAvailable (run_passes ex_drifted ex_run) (''default'', ''phi'')"
    using conditions_monotonic [OF wf_ex_drifted env_keeps_ex_run, of "(''default'', ''phi'')"] p by simp
  have u': "\<forall>t. condition_count t (run_passes ex_drifted ex_run) (''default'', ''phi'') \<le> 1"
    using conditions_monotonic [OF wf_ex_drifted env_keeps_ex_run, of "(''default'', ''phi'')"] u by simp
  show ?thesis
    using wf_ex_available wf_ex_drifted env_keeps_ex_run a p u a' p' u'
    by (simp add: list_all_iff)
qed

text \<open>
  C1 as stated fails on the run of the fresh Model to availability: the first pass sets
  Progressing, and after the remaining passes, the last of which sets Available, Progressing
  is no longer among the conditions.
\<close>

theorem progressing_cleared_by_available:
  "0 < condition_count ModelProgressing (run_passes ex_cluster (take 1 ex_run)) (''default'', ''phi'') \<and>
   condition_count ModelProgressing
     (run_passes (run_passes ex_cluster (take 1 ex_run)) (drop 1 ex_run)) (''default'', ''phi'') = 0"
  by (simp add: ex_defs code_defs condition_count_def Let_def)

text \<open>
  C2, as amended. Let the pass reach the deployment: the Model is stored under the requested
  namespace and name, which are its own, and has begun (Progressing or Available is recorded), the volume claim,
  the stateful set and the service of the image store are ensured without error and both
  report ready, and the four store calls of the pass (the fetch, the two reads and the update
  of the deployment) do not fail. If the deployment exists, stored under its own name, with
  replica count \<open>R1\<close> and the Model declares \<open>R2 \<noteq> R1\<close> (1 when it declares none), the pass
  updates the replica count of the deployment to \<open>R2\<close> and returns a requeue after 5 seconds;
  it writes no status, so it does not set Available, and records no ModelAvailable event.
\<close>

theorem drift_update_requeues:
  assumes fetched: "models s (req_Namespace req, req_Name req) = Some m"
      and named: "meta_key (m_Meta m) = (req_Namespace req, req_Name req)"
      and begun: "IsAvailable m \<or> IsProgressing m"
      and store_up: "\<forall>i<4. faults s (length (calls s) + i) = None"
      and pvc: "EnsureImageStorePVCCreated ims (req_Namespace req) (StorageClassName (m_Spec m))
                  (PersistentVolumeClaim (m_Spec m)) (PersistentVolume (m_Spec m)) = None"
      and sts: "EnsureImageStoreStatefulSetCreated ims (req_Namespace req) = Inr statefulSet"
      and sts_ready: "IsImageStoreStatefulSetReady ims (req_Namespace req) = Inr True"
      and svc: "EnsureImageStoreServiceCreated ims (req_Namespace req) statefulSet = None"
      and svc_ready: "IsImageStoreServiceReady ims (req_Namespace req) = Inr True"
      and live: "deployments s (req_Namespace req, ModelAppName (req_Name req)) = Some d"
      and stored_key: "meta_key (d_Meta d) = (req_Namespace req, ModelAppName (req_Name req))"
      and r1: "ds_Replicas (d_Spec d) = Some R1"
      and r2: "R2 = (case Replicas (m_Spec m) of None \<Rightarrow> 1 | Some r \<Rightarrow> r)"
      and drift: "R2 \<noteq> R1"
  shows "fst (Reconcile ims req s) = Inr \<lparr>Requeue = True, RequeueAfter = time_Second * 5\<rparr> \<and>
         deployments (snd (Reconcile ims req s)) =
           (deployments s)((req_Namespace req, ModelAppName (req_Name req)) \<mapsto>
              d\<lparr>d_Spec := (d_Spec d)\<lparr>ds_Replicas := Some R2\<rparr>\<rparr>) \<and>
         models (snd (Reconcile ims req s)) = models s \<and>
         (\<forall>c \<in> set (new_calls s (snd (Reconcile ims req s))). fst c \<noteq> VStatusUpdate) \<and>
         (\<forall>e \<in> set (new_events s (snd (Reconcile ims req s))). ev_Reason e \<noteq> ''ModelAvailable'')"
proof -
  have f: "faults s (length (calls s)) = None" "faults s (Suc (length (calls s))) = None"
      "faults s (Suc (Suc (length (calls s)))) = None"
      "faults s (Suc (Suc (Suc (length (calls s))))) = None"
    using store_up [rule_format, of 0] store_up [rule_format, of 1]
      store_up [rule_format, of 2] store_up [rule_format, of 3]
    by (simp_all add: numeral_2_eq_2 numeral_3_eq_3)
  let ?rec = "NewWrappedRecorder m"
  let ?k = "(req_Namespace req, ModelAppName (req_Name req))"
  let ?s1 = "s\<lparr>calls := calls s @ [(VGet, KModel, (req_Namespace req, req_Name req))]\<rparr>"
  let ?s2 = "?s1\<lparr>calls := calls ?s1 @ [(VGet, KDeployment, ?k)]\<rparr>"
  have nm: "Namespace (m_Meta m) = req_Namespace req" "Name (m_Meta m) = req_Name req"
    using named by (simp_all add: meta_key_def)
  have rt: "(word_of_int (sint R2) :: int32) = R2" by simp
  have ne: "sint R1 \<noteq> sint R2" using drift signed_word_eqI [of R1 R2] by auto
  have R2s: "(case Replicas (m_Spec m) of None \<Rightarrow> (1::int) | Some r \<Rightarrow> sint r) = sint R2"
    using r2 by (simp split: option.splits)
  have e: "EnsureDeploymentCreated ims (req_Namespace req) (req_Name req) (Image (m_Spec m))
             (Replicas (m_Spec m)) m ?rec ?s1 = (Inr d, ?s2)"
    using live f by (simp add: EnsureDeploymentCreated_def getDeployment_eq)
  let ?d' = "d\<lparr>d_Spec := (d_Spec d)\<lparr>ds_Replicas := Some R2\<rparr>\<rparr>"
  let ?s4 = "Eventf ?rec ''Normal'' ''ModelScaled'' ''Model scaled from %d to %d''
               [ArgInt (sint (dst_Replicas (d_Status d))), ArgInt (sint R2)]
               (?s2\<lparr>calls := calls ?s2 @ [(VGet, KDeployment, ?k), (VUpdate, KDeployment, ?k)],
                     deployments := (deployments s)(?k \<mapsto> ?d')\<rparr>)"
  have u: "UpdateDeployment m ?rec ?s2 = (Inr True, ?s4)"
    using live f r1 ne stored_key
    by (simp add: UpdateDeployment_def getDeployment_eq nm R2s rt Update_Deployment_eq Let_def)
  have w: "Reconcile_workload ims req m ?rec ?s1 =
             (Inr \<lparr>Requeue = True, RequeueAfter = time_Second * 5\<rparr>, ?s4)"
    by (simp add: Reconcile_workload_def e u [simplified])
  have i: "Reconcile_image_store ims req m ?rec ?s1 =
             (Inr \<lparr>Requeue = True, RequeueAfter = time_Second * 5\<rparr>, ?s4)"
    using pvc sts sts_ready svc svc_ready by (simp add: Reconcile_image_store_def w [simplified])
  have p: "Reconcile_fetched ims req m ?s1 =
             (Inr \<lparr>Requeue = True, RequeueAfter = time_Second * 5\<rparr>, ?s4)"
    using begun by (auto simp: Reconcile_fetched_def SetProgressing_def IsProgressing_def Let_def i [simplified])
  have r: "Reconcile ims req s = (Inr \<lparr>Requeue = True, RequeueAfter = time_Second * 5\<rparr>, ?s4)"
    using fetched f by (simp add: Reconcile_def Get_Model_eq p [simplified])
  show ?thesis
    by (simp add: r [simplified] Eventf_def new_calls_def new_events_def)
qed

theorem drift_update_requeues_witness:
  "models ex_drifted (req_Namespace ex_req, req_Name ex_req) = Some ex_progressing \<and>
   IsProgressing ex_progressing \<and>
   deployments ex_drifted (req_Namespace ex_req, ModelAppName (req_Name ex_req)) = Some ex_deployment \<and>
   ds_Replicas (d_Spec ex_deployment) = Some 1 \<and>
   Replicas (m_Spec ex_progressing) = Some 2 \<and>
   fst (Reconcile ex_ims ex_req ex_drifted) = Inr \<lparr>Requeue = True, RequeueAfter = time_Second * 5\<rparr> \<and>
   deployments (snd (Reconcile ex_ims ex_req ex_drifted)) =
     (deployments ex_drifted)((req_Namespace ex_req, ModelAppName (req_Name ex_req)) \<mapsto>
        ex_deployment\<lparr>d_Spec := (d_Spec ex_deployment)\<lparr>ds_Replicas := Some 2\<rparr>\<rparr>) \<and>
   filter (\<lambda>c. fst c = VStatusUpdate)
     (new_calls ex_drifted (snd (Reconcile ex_ims ex_req ex_drifted))) = [] \<and>
   filter (\<lambda>e. ev_Reason e = ''ModelAvailable'')
     (new_events ex_drifted (snd (Reconcile ex_ims ex_req ex_drifted))) = []"
proof -
  have h1: "models ex_drifted (req_Namespace ex_req, req_Name ex_req) = Some ex_progressing"
    by (simp add: ex_defs)
  have h2: "meta_key (m_Meta ex_progressing) = (req_Namespace ex_req, req_Name ex_req)"
    by (simp add: ex_defs meta_key_def)
  have h3: "IsProgressing ex_progressing"
    by (simp add: ex_defs IsProgressing_def)
  have h4: "\<forall>i<4. faults ex_drifted (length (calls ex_drifted) + i) = None"
    by (simp add: ex_defs)
  have h5: "EnsureImageStorePVCCreated ex_ims (req_Namespace ex_req)
              (StorageClassName (m_Spec ex_progressing)) (PersistentVolumeClaim (m_Spec ex_progressing))
              (PersistentVolume (m_Spec ex_progressing)) = None"
    by (simp add: ex_defs)
  have h6: "EnsureImageStoreStatefulSetCreated ex_ims (req_Namespace ex_req) = Inr ex_statefulSet"
    by (simp add: ex_ims_def)
  have h7: "IsImageStoreStatefulSetReady ex_ims (req_Namespace ex_req) = Inr True"
    by (simp add: ex_ims_def)
  have h8: "EnsureImageStoreServiceCreated ex_ims (req_Namespace ex_req) ex_statefulSet = None"
    by (simp add: ex_ims_def)
  have h9: "IsImageStoreServiceReady ex_ims (req_Namespace ex_req) = Inr True"
    by (simp add: ex_ims_def)
  have h10: "deployments ex_drifted (req_Namespace ex_req, ModelAppName (req_Name ex_req)) = Some ex_deployment"
    by (simp add: ex_defs ModelAppName_def)
  have h11: "meta_key (d_Meta ex_deployment) = (req_Namespace ex_req, ModelAppName (req_Name ex_req))"
    by (simp add: ex_defs meta_key_def newDeployment_def)
  have h12: "ds_Replicas (d_Spec ex_deployment) = Some 1"
    by (simp add: ex_defs newDeployment_def)
  have h13: "(2::int32) = (case Replicas (m_Spec ex_progressing) of None \<Rightarrow> 1 | Some r \<Rightarrow> r)"
    by (simp add: ex_defs)
  have h14: "(2::int32) \<noteq> 1" by simp
  have r2: "Replicas (m_Spec ex_progressing) = Some 2" by (simp add: ex_defs)
  show ?thesis
    using drift_update_requeues [OF h1 h2 disjI2 [OF h3] h4 h5 h6 h7 h8 h9 h10 h11 h12 h13 h14]
      h1 h3 h10 h12 r2
    by (simp add: filter_empty_conv)
qed

text \<open>
  C2 as stated fails on passes that return before the deployment, with the deployment at 1
  replica and the Model asking for 2: while the stateful set of the image store is not ready
  the pass requeues after 5 seconds and leaves the deployment as it is, and for a Model that
  records no condition yet the pass sets Progressing, requeues after 1 second and leaves the
  deployment as it is.
\<close>

theorem drift_left_by_early_return:
  "models ex_drifted (''default'', ''phi'') = Some ex_progressing \<and>
   Replicas (m_Spec ex_progressing) = Some 2 \<and>
   map_option (\<lambda>d. ds_Replicas (d_Spec d)) (deployments ex_drifted (''default'', ''ollama-model-phi'')) =
     Some (Some 1) \<and>
   fst (Reconcile ex_ims_server_waiting ex_req ex_drifted) =
     Inr \<lparr>Requeue = True, RequeueAfter = 5000000000\<rparr> \<and>
   deployments (snd (Reconcile ex_ims_server_waiting ex_req ex_drifted)) = deployments ex_drifted \<and>
   models ex_fresh_drifted (''default'', ''phi'') = Some ex_model \<and>
   Replicas (m_Spec ex_model) = Some 2 \<and>
   map_option (\<lambda>d. ds_Replicas (d_Spec d)) (deployments ex_fresh_drifted (''default'', ''ollama-model-phi'')) =
     Some (Some 1) \<and>
   fst (Reconcile ex_ims ex_req ex_fresh_drifted) =
     Inr \<lparr>Requeue = True, RequeueAfter = 1000000000\<rparr> \<and>
   deployments (snd (Reconcile ex_ims ex_req ex_fresh_drifted)) = deployments ex_fresh_drifted"
  by (simp add: ex_fresh_drifted_def ex_defs code_defs Let_def)

text \<open>
  C3. When a call of \<^verbatim>\<open>EnsureDeploymentCreated\<close> (of \<^verbatim>\<open>EnsureServiceCreated\<close>) has succeeded
  and the read of the next call succeeds, the same call again returns the same resource and
  leaves the cluster as it is but for the one read in the call log: no create call, the stored
  resource and the events unchanged. The first call recorded the creation event exactly when
  the resource was absent before it, that is when it created it.
\<close>

theorem ensureCreated_idempotent:
  "(EnsureDeploymentCreated ims ns n img r m rec s = (Inr d, s1) \<and>
    faults s1 (length (calls s1)) = None \<longrightarrow>
      EnsureDeploymentCreated ims ns n img r m rec s1 =
        (Inr d, s1\<lparr>calls := calls s1 @ [(VGet, KDeployment, (ns, ModelAppName n))]\<rparr>) \<and>
      events s1 = (if deployments s (ns, ModelAppName n) = None
                   then events s @ [\<lparr>ev_Object = rec, ev_Type = ''Normal'',
                          ev_Reason = ''DeploymentCreated'', ev_Format = ''Deployment %s created'',
                          ev_Args = [ArgString (ModelAppName n)]\<rparr>]
                   else events s)) \<and>
   (EnsureServiceCreated ns n dep rec s = (Inr v, s2) \<and>
    faults s2 (length (calls s2)) = None \<longrightarrow>
      EnsureServiceCreated ns n dep rec s2 =
        (Inr v, s2\<lparr>calls := calls s2 @ [(VGet, KService, (ns, ModelAppName n))]\<rparr>) \<and>
      events s2 = (if services s (ns, ModelAppName n) = None
                   then events s @ [\<lparr>ev_Object = rec, ev_Type = ''Normal'',
                          ev_Reason = ''ServiceCreated'', ev_Format = ''Service %s created'',
                          ev_Args = [ArgString (ModelAppName n)]\<rparr>]
                   else events s))"
  using EnsureDeploymentCreated_present [OF EnsureDeploymentCreated_stored, of ims ns n img r m rec s d s1]
    EnsureDeploymentCreated_events [of ims ns n img r m rec s d s1]
    EnsureServiceCreated_present [OF EnsureServiceCreated_stored, of ns n dep rec s v s2]
    EnsureServiceCreated_events [of ns n dep rec s v s2]
  by blast

theorem ensureCreated_idempotent_witness:
  "fst (EnsureDeploymentCreated ex_ims ''default'' ''phi'' ''phi'' (Some 2) ex_model (''default'', ''phi'') ex_cluster) =
     Inr (newDeployment ex_ims ''default'' ''phi'' ''phi'' (Some 2) ex_model) \<and>
   fst (EnsureDeploymentCreated ex_ims ''default'' ''phi'' ''phi'' (Some 2) ex_model (''default'', ''phi'')
          (snd (EnsureDeploymentCreated ex_ims ''default'' ''phi'' ''phi'' (Some 2) ex_model (''default'', ''phi'') ex_cluster))) =
     Inr (newDeployment ex_ims ''default'' ''phi'' ''phi'' (Some 2) ex_model) \<and>
   new_calls (snd (EnsureDeploymentCreated ex_ims ''default'' ''phi'' ''phi'' (Some 2) ex_model (''default'', ''phi'') ex_cluster))
     (snd (EnsureDeploymentCreated ex_ims ''default'' ''phi'' ''phi'' (Some 2) ex_model (''default'', ''phi'')
          (snd (EnsureDeploymentCreated ex_ims ''default'' ''phi'' ''phi'' (Some 2) ex_model (''default'', ''phi'') ex_cluster)))) =
     [(VGet, KDeployment, (''default'', ModelAppName ''phi''))] \<and>
   fst (EnsureServiceCreated ''default'' ''phi'' ex_deployment (''default'', ''phi'') ex_cluster) =
     Inr (newService ''default'' ''phi'' ex_deployment) \<and>
   fst (EnsureServiceCreated ''default'' ''phi'' ex_deployment (''default'', ''phi'')
          (snd (EnsureServiceCreated ''default'' ''phi'' ex_deployment (''default'', ''phi'') ex_cluster))) =
     Inr (newService ''default'' ''phi'' ex_deployment) \<and>
   new_calls (snd (EnsureServiceCreated ''default'' ''phi'' ex_deployment (''default'', ''phi'') ex_cluster))
     (snd (EnsureServiceCreated ''default'' ''phi'' ex_deployment (''default'', ''phi'')
          (snd (EnsureServiceCreated ''default'' ''phi'' ex_deployment (''default'', ''phi'') ex_cluster)))) =
     [(VGet, KService, (''default'', ModelAppName ''phi''))]"
proof -
  let ?d = "newDeployment ex_ims ''default'' ''phi'' ''phi'' (Some 2) ex_model"
  let ?s1 = "snd (EnsureDeploymentCreated ex_ims ''default'' ''phi'' ''phi'' (Some 2) ex_model (''default'', ''phi'') ex_cluster)"
  let ?v = "newService ''default'' ''phi'' ex_deployment"
  let ?s2 = "snd (EnsureServiceCreated ''default'' ''phi'' ex_deployment (''default'', ''phi'') ex_cluster)"
  have d1: "fst (EnsureDeploymentCreated ex_ims ''default'' ''phi'' ''phi'' (Some 2) ex_model (''default'', ''phi'') ex_cluster) = Inr ?d"
    by (simp add: EnsureDeploymentCreated_def getDeployment_eq Create_Deployment_def client_call_def
          ex_cluster_def Let_def)
  then have d2: "EnsureDeploymentCreated ex_ims ''default'' ''phi'' ''phi'' (Some 2) ex_model (''default'', ''phi'') ex_cluster = (Inr ?d, ?s1)"
    by (simp add: prod_eq_iff)
  have d3: "faults ?s1 (length (calls ?s1)) = None"
    by (simp add: EnsureDeploymentCreated_def getDeployment_eq Create_Deployment_def client_call_def
          ex_cluster_def Let_def Eventf_def)
  have v1: "fst (EnsureServiceCreated ''default'' ''phi'' ex_deployment (''default'', ''phi'') ex_cluster) = Inr ?v"
    by (simp add: EnsureServiceCreated_def getService_eq Create_Service_def client_call_def
          ex_cluster_def Let_def)
  then have v2: "EnsureServiceCreated ''default'' ''phi'' ex_deployment (''default'', ''phi'') ex_cluster = (Inr ?v, ?s2)"
    by (simp add: prod_eq_iff)
  have v3: "faults ?s2 (length (calls ?s2)) = None"
    by (simp add: EnsureServiceCreated_def getService_eq Create_Service_def client_call_def
          ex_cluster_def Let_def Eventf_def)
  show ?thesis
    using ensureCreated_idempotent [of ex_ims "''default''" "''phi''" "''phi''" "Some 2" ex_model
        "(''default'', ''phi'')" ex_cluster ?d ?s1 ex_deployment ?v ?s2] d1 d2 d3 v1 v2 v3
    by (simp add: new_calls_def)
qed

text \<open>
  C4. The replica counter step of a pass (lines 151 to 159 of \<^verbatim>\<open>Reconcile\<close>) issues a
  status write, and exactly one, if and only if one of the four counters observed on the
  deployment differs from the one in the status of the Model, and it reports true, on which
  the pass requeues, only in that case.
\<close>

theorem counters_write_iff_differ:
  "(calls (snd (Reconcile_counters m deployment s)) =
      (if st_Replicas (m_Status m) \<noteq> dst_Replicas (d_Status deployment) \<or>
          st_ReadyReplicas (m_Status m) \<noteq> dst_ReadyReplicas (d_Status deployment) \<or>
          st_AvailableReplicas (m_Status m) \<noteq> dst_AvailableReplicas (d_Status deployment) \<or>
          st_UnavailableReplicas (m_Status m) \<noteq> dst_UnavailableReplicas (d_Status deployment)
       then calls s @ [(VStatusUpdate, KModel, meta_key (m_Meta m))] else calls s)) \<and>
   (fst (Reconcile_counters m deployment s) = Inr True \<longrightarrow>
      st_Replicas (m_Status m) \<noteq> dst_Replicas (d_Status deployment) \<or>
      st_ReadyReplicas (m_Status m) \<noteq> dst_ReadyReplicas (d_Status deployment) \<or>
      st_AvailableReplicas (m_Status m) \<noteq> dst_AvailableReplicas (d_Status deployment) \<or>
      st_UnavailableReplicas (m_Status m) \<noteq> dst_UnavailableReplicas (d_Status deployment))"
  by (auto simp: Reconcile_counters_def SetReplicas_def ShouldSetReplicas_def Status_Update_def client_call_def Let_def
      split: option.splits)

theorem counters_write_iff_differ_witness:
  "fst (Reconcile_counters ex_model ex_deployment ex_cluster) = Inr True \<and>
   st_Replicas (m_Status ex_model) \<noteq> dst_Replicas (d_Status ex_deployment) \<and>
   calls (snd (Reconcile_counters ex_model ex_deployment ex_cluster)) =
     calls ex_cluster @ [(VStatusUpdate, KModel, meta_key (m_Meta ex_model))]"
proof -
  have t: "fst (Reconcile_counters ex_model ex_deployment ex_cluster) = Inr True"
    by (simp add: Reconcile_counters_def ShouldSetReplicas_def SetReplicas_def Status_Update_eq
          ex_defs meta_key_def Let_def)
  have d: "st_Replicas (m_Status ex_model) \<noteq> dst_Replicas (d_Status ex_deployment)"
    by (simp add: ex_defs)
  show ?thesis
    using counters_write_iff_differ [of ex_model ex_deployment ex_cluster] t d by simp
qed

text \<open>
  C5. In a pass in which the image store reports its stateful set or its service not ready,
  the deployment is not touched: the pass makes no client call on a deployment (and
  \<^verbatim>\<open>EnsureDeploymentCreated\<close> begins with one) and leaves the stored deployments as they are.
  When the pass gets as far as the readiness check that fails (the Model is fetched and has
  begun, the claim and the stateful set of the image store are ensured, and its service too
  when the stateful set is ready), it returns a requeue after 5 seconds.
\<close>

theorem no_deployment_before_image_store_ready:
  assumes "IsImageStoreStatefulSetReady ims (req_Namespace req) = Inr False \<or>
           IsImageStoreServiceReady ims (req_Namespace req) = Inr False"
  shows "deployments (snd (Reconcile ims req s)) = deployments s \<and>
         (\<forall>c \<in> set (new_calls s (snd (Reconcile ims req s))). fst (snd c) \<noteq> KDeployment) \<and>
         (models s (req_Namespace req, req_Name req) = Some m \<and>
          faults s (length (calls s)) = None \<and>
          (IsAvailable m \<or> IsProgressing m) \<and>
          EnsureImageStorePVCCreated ims (req_Namespace req) (StorageClassName (m_Spec m))
            (PersistentVolumeClaim (m_Spec m)) (PersistentVolume (m_Spec m)) = None \<and>
          EnsureImageStoreStatefulSetCreated ims (req_Namespace req) = Inr sts \<and>
          (IsImageStoreStatefulSetReady ims (req_Namespace req) = Inr False \<or>
           IsImageStoreStatefulSetReady ims (req_Namespace req) = Inr True \<and>
           EnsureImageStoreServiceCreated ims (req_Namespace req) sts = None)
          \<longrightarrow> fst (Reconcile ims req s) = Inr \<lparr>Requeue = True, RequeueAfter = time_Second * 5\<rparr>)"
proof -
  have fetched: "deployments (snd (Reconcile_fetched ims req m' t)) = deployments t \<and>
        (\<forall>c \<in> set (new_calls t (snd (Reconcile_fetched ims req m' t))). fst (snd c) \<noteq> KDeployment)" for m' t
    by (auto simp: image_store_waiting [OF assms] Reconcile_fetched_def SetProgressing_def
          Status_Update_eq Eventf_def Let_def new_calls_def
          split: option.splits sum.splits bool.splits)
  have a: "deployments (snd (Reconcile ims req s)) = deployments s"
    using fetched
    by (auto simp: Reconcile_def Get_Model_eq IgnoreNotFound_def split: option.splits)
  have b: "\<forall>c \<in> set (new_calls s (snd (Reconcile ims req s))). fst (snd c) \<noteq> KDeployment"
  proof (cases "fst (Get_Model (req_Namespace req, req_Name req) s)")
    case (Inl e)
    then show ?thesis
      by (auto simp: Reconcile_def Get_Model_eq IgnoreNotFound_def new_calls_def split: option.splits)
  next
    case (Inr m')
    let ?t = "s\<lparr>calls := calls s @ [(VGet, KModel, (req_Namespace req, req_Name req))]\<rparr>"
    have r: "Reconcile ims req s = Reconcile_fetched ims req m' ?t"
      using Inr by (auto simp: Reconcile_def Get_Model_eq split: option.splits)
    show ?thesis
      using fetched [of m' ?t]
      by (auto simp: r new_calls_def image_store_waiting [OF assms] Reconcile_fetched_def
            SetProgressing_def Status_Update_eq Eventf_def Let_def
            split: option.splits sum.splits bool.splits if_splits)
  qed
  have c: "fst (Reconcile ims req s) = Inr \<lparr>Requeue = True, RequeueAfter = time_Second * 5\<rparr>"
    if "models s (req_Namespace req, req_Name req) = Some m"
       "faults s (length (calls s)) = None"
       "IsAvailable m \<or> IsProgressing m"
       "EnsureImageStorePVCCreated ims (req_Namespace req) (StorageClassName (m_Spec m))
            (PersistentVolumeClaim (m_Spec m)) (PersistentVolume (m_Spec m)) = None"
       "EnsureImageStoreStatefulSetCreated ims (req_Namespace req) = Inr sts"
       "IsImageStoreStatefulSetReady ims (req_Namespace req) = Inr False \<or>
           IsImageStoreStatefulSetReady ims (req_Namespace req) = Inr True \<and>
           EnsureImageStoreServiceCreated ims (req_Namespace req) sts = None"
    using that image_store_waiting_result [OF assms that(4,5,6)]
    by (auto simp: Reconcile_def Get_Model_eq Reconcile_fetched_def SetProgressing_def Let_def IsProgressing_def)
  from a b c show ?thesis by blast
qed

theorem no_deployment_before_image_store_ready_witness:
  "IsImageStoreStatefulSetReady ex_ims_server_waiting (req_Namespace ex_req) = Inr False \<and>
   models ex_drifted (req_Namespace ex_req, req_Name ex_req) = Some ex_progressing \<and>
   IsProgressing ex_progressing \<and>
   deployments (snd (Reconcile ex_ims_server_waiting ex_req ex_drifted)) = deployments ex_drifted \<and>
   filter (\<lambda>c. fst (snd c) = KDeployment)
     (new_calls ex_drifted (snd (Reconcile ex_ims_server_waiting ex_req ex_drifted))) = [] \<and>
   fst (Reconcile ex_ims_server_waiting ex_req ex_drifted) =
     Inr \<lparr>Requeue = True, RequeueAfter = time_Second * 5\<rparr>"
proof -
  have w: "IsImageStoreStatefulSetReady ex_ims_server_waiting (req_Namespace ex_req) = Inr False"
    by (simp add: ex_defs)
  have m: "models ex_drifted (req_Namespace ex_req, req_Name ex_req) = Some ex_progressing"
    by (simp add: ex_defs)
  have p: "IsProgressing ex_progressing"
    by (simp add: ex_defs IsProgressing_def)
  have f: "faults ex_drifted (length (calls ex_drifted)) = None"
    by (simp add: ex_defs)
  have i: "EnsureImageStorePVCCreated ex_ims_server_waiting (req_Namespace ex_req)
             (StorageClassName (m_Spec ex_progressing)) (PersistentVolumeClaim (m_Spec ex_progressing))
             (PersistentVolume (m_Spec ex_progressing)) = None"
      "EnsureImageStoreStatefulSetCreated ex_ims_server_waiting (req_Namespace ex_req) = Inr ex_statefulSet"
    by (simp_all add: ex_defs)
  show ?thesis
    using no_deployment_before_image_store_ready [OF disjI1 [OF w], of ex_drifted ex_progressing ex_statefulSet]
      w m p f i
    by (simp add: filter_empty_conv)
qed

text \<open>
  C6, as amended. When the fetch of the Model answers not-found, the pass is a success and a
  no-op: it returns no error and no requeue and leaves the cluster as it is but for the read
  in the call log. A Model removed after the fetch is another matter. The rest of the pass
  stores no Model, and whenever it calls a status update, the pass returns an error: not-found,
  or an error with which the store fails a call; so such a pass is a success only when it
  calls no status update. Each of the three status writes fails with not-found on the missing
  Model when the store does not fail the call itself, and the pass returns that error there:
  setting Progressing (line 72) for a Model that records neither Available nor Progressing,
  and, once the pass is at line 151, recording the replica counters (line 152) when they
  differ, and setting Available (line 161) when they do not and Available is not recorded.
\<close>

theorem fetch_not_found_is_success:
  "(fst (Get_Model (req_Namespace req, req_Name req) s) = Inl NotFound \<longrightarrow>
      Reconcile ims req s =
        (Inr \<lparr>Requeue = False, RequeueAfter = 0\<rparr>,
         s\<lparr>calls := calls s @ [(VGet, KModel, (req_Namespace req, req_Name req))]\<rparr>)) \<and>
   (models s (meta_key (m_Meta m)) = None \<longrightarrow>
      models (snd (Reconcile_fetched ims req m s)) = models s \<and>
      (list_ex (\<lambda>c. fst c = VStatusUpdate) (new_calls s (snd (Reconcile_fetched ims req m s))) \<longrightarrow>
         (\<exists>e. fst (Reconcile_fetched ims req m s) = Inl e \<and>
              (e = NotFound \<or> (\<exists>i. faults s i = Some e))))) \<and>
   (models s (meta_key (m_Meta m)) = None \<and> faults s (length (calls s)) = None \<longrightarrow>
      (\<not> IsAvailable m \<and> \<not> IsProgressing m \<longrightarrow>
         Reconcile_fetched ims req m s =
           (Inl NotFound,
            s\<lparr>calls := calls s @ [(VStatusUpdate, KModel, meta_key (m_Meta m))]\<rparr>)) \<and>
      (ShouldSetReplicas m (dst_Replicas (d_Status d)) (dst_ReadyReplicas (d_Status d))
         (dst_AvailableReplicas (d_Status d)) (dst_UnavailableReplicas (d_Status d)) \<longrightarrow>
         Reconcile_status m rec d s =
           (Inl NotFound,
            s\<lparr>calls := calls s @ [(VStatusUpdate, KModel, meta_key (m_Meta m))]\<rparr>)) \<and>
      (\<not> ShouldSetReplicas m (dst_Replicas (d_Status d)) (dst_ReadyReplicas (d_Status d))
           (dst_AvailableReplicas (d_Status d)) (dst_UnavailableReplicas (d_Status d)) \<and>
       \<not> IsAvailable m \<longrightarrow>
         Reconcile_status m rec d s =
           (Inl NotFound,
            s\<lparr>calls := calls s @ [(VStatusUpdate, KModel, meta_key (m_Meta m))]\<rparr>)))"
proof (intro conjI impI)
  assume "fst (Get_Model (req_Namespace req, req_Name req) s) = Inl NotFound"
  then show "Reconcile ims req s =
        (Inr \<lparr>Requeue = False, RequeueAfter = 0\<rparr>,
         s\<lparr>calls := calls s @ [(VGet, KModel, (req_Namespace req, req_Name req))]\<rparr>)"
    by (auto simp: Reconcile_def Get_Model_eq IgnoreNotFound_def split: option.splits)
next
  assume a: "models s (meta_key (m_Meta m)) = None"
  from removed_fetched [OF a, of ims req]
  show "models (snd (Reconcile_fetched ims req m s)) = models s"
    by (simp add: removed_outcome_def)
next
  assume a: "models s (meta_key (m_Meta m)) = None"
    and w: "list_ex (\<lambda>c. fst c = VStatusUpdate) (new_calls s (snd (Reconcile_fetched ims req m s)))"
  from removed_fetched [OF a, of ims req] w
  show "\<exists>e. fst (Reconcile_fetched ims req m s) = Inl e \<and>
              (e = NotFound \<or> (\<exists>i. faults s i = Some e))"
    by (auto simp: removed_outcome_def new_calls_def)
next
  assume "models s (meta_key (m_Meta m)) = None \<and> faults s (length (calls s)) = None"
    and "\<not> IsAvailable m \<and> \<not> IsProgressing m"
  then show "Reconcile_fetched ims req m s =
           (Inl NotFound,
            s\<lparr>calls := calls s @ [(VStatusUpdate, KModel, meta_key (m_Meta m))]\<rparr>)"
    by (simp add: Reconcile_fetched_def SetProgressing_def IsProgressing_def Status_Update_eq Let_def)
next
  assume "models s (meta_key (m_Meta m)) = None \<and> faults s (length (calls s)) = None"
    and "ShouldSetReplicas m (dst_Replicas (d_Status d)) (dst_ReadyReplicas (d_Status d))
         (dst_AvailableReplicas (d_Status d)) (dst_UnavailableReplicas (d_Status d))"
  then show "Reconcile_status m rec d s =
           (Inl NotFound,
            s\<lparr>calls := calls s @ [(VStatusUpdate, KModel, meta_key (m_Meta m))]\<rparr>)"
    by (auto simp: Reconcile_status_def Reconcile_counters_def SetReplicas_def
          Status_Update_eq Let_def)
next
  assume "models s (meta_key (m_Meta m)) = None \<and> faults s (length (calls s)) = None"
    and "\<not> ShouldSetReplicas m (dst_Replicas (d_Status d)) (dst_ReadyReplicas (d_Status d))
           (dst_AvailableReplicas (d_Status d)) (dst_UnavailableReplicas (d_Status d)) \<and>
       \<not> IsAvailable m"
  then show "Reconcile_status m rec d s =
           (Inl NotFound,
            s\<lparr>calls := calls s @ [(VStatusUpdate, KModel, meta_key (m_Meta m))]\<rparr>)"
    by (auto simp: Reconcile_status_def Reconcile_counters_def SetReplicas_def SetAvailable_def
          IsAvailable_def Status_Update_eq Let_def)
qed

theorem fetch_not_found_is_success_witness:
  "fst (Get_Model (req_Namespace ex_req, req_Name ex_req) ex_deleted) = Inl NotFound \<and>
   fst (Reconcile ex_ims ex_req ex_deleted) = Inr \<lparr>Requeue = False, RequeueAfter = 0\<rparr> \<and>
   models ex_deleted (meta_key (m_Meta ex_model)) = None \<and>
   faults ex_deleted (length (calls ex_deleted)) = None \<and>
   list_ex (\<lambda>c. fst c = VStatusUpdate)
     (new_calls ex_deleted (snd (Reconcile_fetched ex_ims ex_req ex_model ex_deleted))) \<and>
   \<not> IsAvailable ex_model \<and> \<not> IsProgressing ex_model \<and>
   fst (Reconcile_fetched ex_ims ex_req ex_model ex_deleted) = Inl NotFound \<and>
   ShouldSetReplicas ex_model (dst_Replicas (d_Status ex_deployment))
     (dst_ReadyReplicas (d_Status ex_deployment)) (dst_AvailableReplicas (d_Status ex_deployment))
     (dst_UnavailableReplicas (d_Status ex_deployment)) \<and>
   fst (Reconcile_status ex_model (''default'', ''phi'') ex_deployment ex_deleted) = Inl NotFound \<and>
   \<not> ShouldSetReplicas ex_model 0 0 0 0 \<and>
   fst (Reconcile_status ex_model (''default'', ''phi'')
          (newDeployment ex_ims ''default'' ''phi'' ''phi'' (Some 2) ex_model) ex_deleted) = Inl NotFound"
proof -
  have g: "fst (Get_Model (req_Namespace ex_req, req_Name ex_req) ex_deleted) = Inl NotFound"
    by (simp add: ex_defs Get_Model_eq)
  have a: "models ex_deleted (meta_key (m_Meta ex_model)) = None"
      "faults ex_deleted (length (calls ex_deleted)) = None"
    by (simp_all add: ex_defs Get_Model_eq meta_key_def)
  have c: "\<not> IsAvailable ex_model" "\<not> IsProgressing ex_model"
    by (simp_all add: ex_defs IsAvailable_def IsProgressing_def)
  have w: "list_ex (\<lambda>c. fst c = VStatusUpdate)
     (new_calls ex_deleted (snd (Reconcile_fetched ex_ims ex_req ex_model ex_deleted)))"
    by (simp add: ex_defs code_defs new_calls_def Let_def)
  have sh: "ShouldSetReplicas ex_model (dst_Replicas (d_Status ex_deployment))
     (dst_ReadyReplicas (d_Status ex_deployment)) (dst_AvailableReplicas (d_Status ex_deployment))
     (dst_UnavailableReplicas (d_Status ex_deployment))"
    by (simp add: ShouldSetReplicas_def ex_defs)
  let ?d0 = "newDeployment ex_ims ''default'' ''phi'' ''phi'' (Some 2) ex_model"
  have ns: "\<not> ShouldSetReplicas ex_model 0 0 0 0"
    by (simp add: ShouldSetReplicas_def ex_defs)
  have d0: "dst_Replicas (d_Status ?d0) = 0" "dst_ReadyReplicas (d_Status ?d0) = 0"
      "dst_AvailableReplicas (d_Status ?d0) = 0" "dst_UnavailableReplicas (d_Status ?d0) = 0"
    by (simp_all add: newDeployment_def)
  show ?thesis
    using fetch_not_found_is_success [of ex_req ex_deleted ex_ims ex_model ex_deployment "(''default'', ''phi'')"]
      fetch_not_found_is_success [of ex_req ex_deleted ex_ims ex_model ?d0 "(''default'', ''phi'')"]
      g a c w sh ns d0
    by simp
qed

text \<open>
  C6 as stated fails when the fresh Model is fetched and then deleted: the rest of the pass
  returns the not-found error of its status write.
\<close>

theorem deleted_after_fetch_is_error:
  "fst (Get_Model (''default'', ''phi'') ex_cluster) = Inr ex_model \<and>
   ex_deleted = (snd (Get_Model (''default'', ''phi'') ex_cluster))\<lparr>models := Map.empty\<rparr> \<and>
   fst (Reconcile_fetched ex_ims ex_req ex_model ex_deleted) = Inl NotFound"
  by (simp add: ex_defs code_defs Let_def)

text \<open>
  C7. \<^verbatim>\<open>IsDeploymentReady\<close> and \<^verbatim>\<open>IsServiceReady\<close> answer not ready, with no error, when the
  get of the resource answers not-found, and they return an error only when that get failed
  with this very error, which is not not-found.
\<close>

theorem IsReady_absent_not_error:
  "(fst (Get_Deployment (ns, ModelAppName n) s) = Inl NotFound \<longrightarrow>
      fst (IsDeploymentReady ns n r s) = Inr False) \<and>
   (fst (IsDeploymentReady ns n r s) = Inl e \<longrightarrow>
      fst (Get_Deployment (ns, ModelAppName n) s) = Inl e \<and> e \<noteq> NotFound) \<and>
   (fst (Get_Service (ns, ModelAppName n) s) = Inl NotFound \<longrightarrow>
      fst (IsServiceReady ns n r s) = Inr False) \<and>
   (fst (IsServiceReady ns n r s) = Inl e \<longrightarrow>
      fst (Get_Service (ns, ModelAppName n) s) = Inl e \<and> e \<noteq> NotFound)"
  by (auto simp: IsDeploymentReady_def IsServiceReady_def getDeployment_def getService_def Let_def
      split: prod.splits sum.splits option.splits if_splits)

theorem IsReady_absent_not_error_witness:
  "fst (Get_Deployment (''default'', ModelAppName ''phi'') ex_cluster) = Inl NotFound \<and>
   fst (IsDeploymentReady ''default'' ''phi'' (''default'', ''phi'') ex_cluster) = Inr False \<and>
   fst (IsDeploymentReady ''default'' ''phi'' (''default'', ''phi'') ex_faulty) = Inl Conflict \<and>
   fst (Get_Deployment (''default'', ModelAppName ''phi'') ex_faulty) = Inl Conflict \<and>
   fst (Get_Service (''default'', ModelAppName ''phi'') ex_cluster) = Inl NotFound \<and>
   fst (IsServiceReady ''default'' ''phi'' (''default'', ''phi'') ex_cluster) = Inr False \<and>
   fst (IsServiceReady ''default'' ''phi'' (''default'', ''phi'') ex_faulty) = Inl Conflict \<and>
   fst (Get_Service (''default'', ModelAppName ''phi'') ex_faulty) = Inl Conflict"
proof -
  have a: "fst (Get_Deployment (''default'', ModelAppName ''phi'') ex_cluster) = Inl NotFound"
      "fst (Get_Service (''default'', ModelAppName ''phi'') ex_cluster) = Inl NotFound"
    by (simp_all add: Get_Deployment_def Get_Service_def client_call_def ex_cluster_def)
  have b: "fst (IsDeploymentReady ''default'' ''phi'' (''default'', ''phi'') ex_faulty) = Inl Conflict"
      "fst (IsServiceReady ''default'' ''phi'' (''default'', ''phi'') ex_faulty) = Inl Conflict"
    by (simp_all add: IsDeploymentReady_def IsServiceReady_def getDeployment_eq getService_eq
          ex_faulty_def ex_cluster_def)
  show ?thesis
    using IsReady_absent_not_error [of "''default''" "''phi''" ex_cluster "(''default'', ''phi'')" Conflict]
      IsReady_absent_not_error [of "''default''" "''phi''" ex_faulty "(''default'', ''phi'')" Conflict] a b
    by simp
qed

text \<open>
  C8. For a deployment that exists and is read, \<^verbatim>\<open>IsDeploymentReady\<close> answers true exactly
  when the ready replicas of its status equal the replicas of its spec, taken as 1 when the
  spec has none; for a service that exists and is read, \<^verbatim>\<open>IsServiceReady\<close> answers true
  exactly when its cluster IP is not empty.
\<close>

theorem IsReady_predicate:
  "(deployments s (ns, ModelAppName n) = Some d \<and> faults s (length (calls s)) = None \<longrightarrow>
      fst (IsDeploymentReady ns n r s) =
        Inr (dst_ReadyReplicas (d_Status d) = (case ds_Replicas (d_Spec d) of None \<Rightarrow> 1 | Some x \<Rightarrow> x))) \<and>
   (services s (ns, ModelAppName n) = Some v \<and> faults s (length (calls s)) = None \<longrightarrow>
      fst (IsServiceReady ns n r s) = Inr (ss_ClusterIP (s_Spec v) \<noteq> []))"
  by (auto simp: IsDeploymentReady_def IsServiceReady_def getDeployment_def getService_def Let_def
       Get_Deployment_def Get_Service_def client_call_def
      split: prod.splits sum.splits option.splits if_splits)

theorem IsReady_predicate_witness:
  "deployments ex_drifted (''default'', ModelAppName ''phi'') = Some ex_deployment \<and>
   services ex_drifted (''default'', ModelAppName ''phi'') = Some ex_service \<and>
   faults ex_drifted (length (calls ex_drifted)) = None \<and>
   fst (IsDeploymentReady ''default'' ''phi'' (''default'', ''phi'') ex_drifted) = Inr True \<and>
   fst (IsServiceReady ''default'' ''phi'' (''default'', ''phi'') ex_drifted) = Inr True"
proof -
  have h: "deployments ex_drifted (''default'', ModelAppName ''phi'') = Some ex_deployment"
      "services ex_drifted (''default'', ModelAppName ''phi'') = Some ex_service"
      "faults ex_drifted (length (calls ex_drifted)) = None"
    by (simp_all add: ex_drifted_def ex_cluster_def ModelAppName_def)
  have r: "dst_ReadyReplicas (d_Status ex_deployment) =
             (case ds_Replicas (d_Spec ex_deployment) of None \<Rightarrow> 1 | Some x \<Rightarrow> x)"
      "ss_ClusterIP (s_Spec ex_service) \<noteq> []"
    by (simp_all add: ex_deployment_def ex_service_def newDeployment_def newService_def)
  show ?thesis
    using IsReady_predicate [of ex_drifted "''default''" "''phi''" ex_deployment "(''default'', ''phi'')" ex_service] h r
    by simp
qed

text \<open>
  C9. A status write made through \<^verbatim>\<open>SetProgressing\<close> or \<^verbatim>\<open>SetAvailable\<close> (the call answers
  true) replaces the conditions of the stored Model by the one condition being set. After
  \<^verbatim>\<open>SetAvailable\<close> has written, the list is the single Available condition and holds no
  Progressing condition, whatever the list held before.
\<close>

theorem Set_condition_replaces_list:
  "(SetProgressing m s = (Inr True, s') \<longrightarrow>
      map_option (\<lambda>x. Conditions (m_Status x)) (models s' (meta_key (m_Meta m))) =
        Some [\<lparr>Type = ModelProgressing, Status = ConditionTrue,
               LastUpdateTime = clock s, LastTransitionTime = clock s\<rparr>]) \<and>
   (SetAvailable m s = (Inr True, s') \<longrightarrow>
      map_option (\<lambda>x. Conditions (m_Status x)) (models s' (meta_key (m_Meta m))) =
        Some [\<lparr>Type = ModelAvailable, Status = ConditionTrue,
               LastUpdateTime = clock s, LastTransitionTime = clock s\<rparr>] \<and>
      map_option IsProgressing (models s' (meta_key (m_Meta m))) = Some False)"
  by (auto simp: SetProgressing_def SetAvailable_def Status_Update_eq Let_def
        IsProgressing_def ModelAvailable_def ModelProgressing_def
      split: option.splits if_splits)

theorem Set_condition_replaces_list_witness:
  "fst (SetProgressing ex_model ex_cluster) = Inr True \<and>
   map_option (\<lambda>x. Conditions (m_Status x))
     (models (snd (SetProgressing ex_model ex_cluster)) (meta_key (m_Meta ex_model))) =
     Some [\<lparr>Type = ModelProgressing, Status = ConditionTrue,
            LastUpdateTime = clock ex_cluster, LastTransitionTime = clock ex_cluster\<rparr>] \<and>
   IsProgressing ex_progressing \<and>
   fst (SetAvailable ex_progressing ex_drifted) = Inr True \<and>
   map_option (\<lambda>x. Conditions (m_Status x))
     (models (snd (SetAvailable ex_progressing ex_drifted)) (meta_key (m_Meta ex_progressing))) =
     Some [\<lparr>Type = ModelAvailable, Status = ConditionTrue,
            LastUpdateTime = clock ex_drifted, LastTransitionTime = clock ex_drifted\<rparr>] \<and>
   map_option IsProgressing
     (models (snd (SetAvailable ex_progressing ex_drifted)) (meta_key (m_Meta ex_progressing))) =
     Some False"
proof -
  have p1: "fst (SetProgressing ex_model ex_cluster) = Inr True"
    by (simp add: SetProgressing_def Status_Update_eq ex_defs meta_key_def Let_def)
  then have p2: "SetProgressing ex_model ex_cluster = (Inr True, snd (SetProgressing ex_model ex_cluster))"
    by (simp add: prod_eq_iff)
  have a0: "IsProgressing ex_progressing"
    by (simp add: ex_defs IsProgressing_def)
  have a1: "fst (SetAvailable ex_progressing ex_drifted) = Inr True"
    by (simp add: SetAvailable_def Status_Update_eq ex_defs meta_key_def Let_def
          ModelAvailable_def ModelProgressing_def)
  then have a2: "SetAvailable ex_progressing ex_drifted = (Inr True, snd (SetAvailable ex_progressing ex_drifted))"
    by (simp add: prod_eq_iff)
  show ?thesis
    using Set_condition_replaces_list [of ex_model ex_cluster "snd (SetProgressing ex_model ex_cluster)"]
      Set_condition_replaces_list [of ex_progressing ex_drifted "snd (SetAvailable ex_progressing ex_drifted)"]
      p1 p2 a0 a1 a2
    by simp
qed

text \<open>
  C10. \<^verbatim>\<open>SetReplicas\<close> compares nothing: whatever the four counters, also when they are the
  ones the status of the Model already holds, it issues the status write, and it answers true
  exactly when that write succeeds (the store does not fail the call and holds the Model).
  The comparison is in \<^verbatim>\<open>ShouldSetReplicas\<close>, which answers false on the counters the status
  already holds.
\<close>

theorem SetReplicas_no_comparison:
  "calls (snd (SetReplicas m a b c d s)) = calls s @ [(VStatusUpdate, KModel, meta_key (m_Meta m))] \<and>
   (fst (SetReplicas m a b c d s) = Inr True \<longleftrightarrow>
      faults s (length (calls s)) = None \<and> models s (meta_key (m_Meta m)) \<noteq> None) \<and>
   \<not> ShouldSetReplicas m (st_Replicas (m_Status m)) (st_ReadyReplicas (m_Status m))
        (st_AvailableReplicas (m_Status m)) (st_UnavailableReplicas (m_Status m))"
  by (auto simp: SetReplicas_def ShouldSetReplicas_def Status_Update_def client_call_def Let_def
      split: option.splits)

theorem SetReplicas_no_comparison_witness:
  "\<not> ShouldSetReplicas ex_model 0 0 0 0 \<and>
   faults ex_cluster (length (calls ex_cluster)) = None \<and>
   fst (SetReplicas ex_model 0 0 0 0 ex_cluster) = Inr True \<and>
   calls (snd (SetReplicas ex_model 0 0 0 0 ex_cluster)) =
     calls ex_cluster @ [(VStatusUpdate, KModel, meta_key (m_Meta ex_model))]"
proof -
  have f: "faults ex_cluster (length (calls ex_cluster)) = None"
      "models ex_cluster (meta_key (m_Meta ex_model)) \<noteq> None"
    by (simp_all add: ex_defs meta_key_def)
  have z: "st_Replicas (m_Status ex_model) = 0" "st_ReadyReplicas (m_Status ex_model) = 0"
      "st_AvailableReplicas (m_Status ex_model) = 0" "st_UnavailableReplicas (m_Status ex_model) = 0"
    by (simp_all add: ex_defs)
  show ?thesis
    using SetReplicas_no_comparison [of ex_model 0 0 0 0 ex_cluster] f z by simp
qed

end
